theory Spec2Isabelle
  imports Complex_Main
begin

section \<open>The backend (server.js): tables\<close>

text \<open>
  The backend keeps its ledger in SQLite tables. A table is modelled as the list of its
  rows in insertion order, a row as a record with one field per column (prefixed by the
  table's initial, since the columns \<open>id\<close>, \<open>status\<close>, \<open>date\<close> occur in several tables).
  JavaScript numbers and SQLite \<open>REAL\<close> columns are taken as real numbers, \<open>INTEGER\<close>
  columns as integers, \<open>TEXT\<close> columns as strings, a nullable column as an option.
  A claim's \<open>date\<close> (a \<open>YYYY-MM-DD\<close> text, whose order is the order of the calendar) is
  taken as the number of its day, and \<open>created_at\<close> as a number of seconds.
\<close>

record worker =
  w_id :: string
  w_name :: string
  w_location :: string
  w_sector :: string
  w_wallet_address :: string
  w_public_key :: string
  w_reputation_score :: real
  w_verification_depth :: int
  w_total_days_worked :: int
  w_created_at :: nat
  w_is_active :: int

record work_claim =
  c_id :: string
  c_worker_id :: string
  c_date :: int
  c_hours :: real
  c_task :: string
  c_location_lat :: "real option"
  c_location_lng :: "real option"
  c_status :: string
  c_ipfs_hash :: "string option"
  c_tx_hash :: "string option"
  c_block_number :: "int option"
  c_anomaly_score :: real
  c_created_at :: nat

record verification =
  v_id :: string
  v_claim_id :: string
  v_verifier_id :: string
  v_signature :: string
  v_gps_distance_m :: "real option"
  v_verified_at :: nat
  v_is_valid :: int

record anomaly_flag =
  f_id :: string
  f_flagged_entity :: string
  f_entity_type :: string
  f_anomaly_type :: string
  f_risk_score :: real
  f_description :: string
  f_resolved :: int
  f_created_at :: nat

record credit_report =
  r_id :: string
  r_worker_id :: string
  r_score :: int
  r_tier :: string
  r_max_loan_usd :: int
  r_months_on_chain :: int
  r_avg_peers :: real
  r_avg_weekly_hours :: real
  r_generated_at :: nat

record db =
  workers :: "worker list"
  work_claims :: "work_claim list"
  verifications :: "verification list"
  anomaly_flags :: "anomaly_flag list"
  credit_reports :: "credit_report list"

definition empty_db :: db where
  "empty_db = \<lparr>workers = [], work_claims = [], verifications = [],
     anomaly_flags = [], credit_reports = []\<rparr>"

text \<open>
  What a handler draws from outside the tables: the values of \<open>genId()\<close> (first and
  second call), \<open>genTxHash()\<close>, \<open>genIpfsHash()\<close>, the block number
  \<open>Math.floor(48000 + Math.random() * 1000)\<close>, the SHA-256 digest, the wallet made at
  registration, the signed token, today's date and the clock.
\<close>

record env =
  e_id :: string
  e_id2 :: string
  e_tx_hash :: string
  e_ipfs_hash :: string
  e_block_number :: int
  e_claim_hash :: string
  e_wallet_address :: string
  e_public_key :: string
  e_private_key :: string
  e_token :: string
  e_today :: int
  e_now :: nat
  e_describe :: "real \<Rightarrow> real \<Rightarrow> string"

text \<open>
  What a handler answers: \<open>res.status(n).json({error: msg})\<close> is \<open>Error n msg\<close>; an
  exception that a statement throws (a violated \<open>PRIMARY KEY\<close> or \<open>UNIQUE\<close>
  constraint) and that the handler does not catch is \<open>Uncaught\<close>; the other
  constructors are the success bodies.
\<close>

datatype response =
  Error nat string
  | Uncaught string
  | Register_json string string string
  | Claim_json string int real string string real
  | Verify_sealed string string string
  | Verify_unsealed string nat
  | Credit_json string int string int int real real nat

fun is_error :: "response \<Rightarrow> bool" where
  "is_error (Error n msg) = True"
| "is_error (Uncaught msg) = True"
| "is_error r = False"

fun is_error_reply :: "response \<Rightarrow> bool" where
  "is_error_reply (Error n msg) = True"
| "is_error_reply r = False"

subsection \<open>Inserting a row\<close>

text \<open>Every table has \<open>id TEXT PRIMARY KEY\<close>: an insert with an id already there throws.\<close>

definition insert_worker :: "db \<Rightarrow> worker \<Rightarrow> db option" where
  "insert_worker d row =
     (if w_id row \<in> set (map w_id (workers d))
         \<or> w_wallet_address row \<in> set (map w_wallet_address (workers d)) then None
      else Some (d\<lparr>workers := workers d @ [row]\<rparr>))"

definition insert_claim :: "db \<Rightarrow> work_claim \<Rightarrow> db option" where
  "insert_claim d row =
     (if c_id row \<in> set (map c_id (work_claims d)) then None
      else Some (d\<lparr>work_claims := work_claims d @ [row]\<rparr>))"

definition insert_verification :: "db \<Rightarrow> verification \<Rightarrow> db option" where
  "insert_verification d row =
     (if v_id row \<in> set (map v_id (verifications d)) then None
      else Some (d\<lparr>verifications := verifications d @ [row]\<rparr>))"

definition insert_flag :: "db \<Rightarrow> anomaly_flag \<Rightarrow> db option" where
  "insert_flag d row =
     (if f_id row \<in> set (map f_id (anomaly_flags d)) then None
      else Some (d\<lparr>anomaly_flags := anomaly_flags d @ [row]\<rparr>))"

definition insert_report :: "db \<Rightarrow> credit_report \<Rightarrow> db option" where
  "insert_report d row =
     (if r_id row \<in> set (map r_id (credit_reports d)) then None
      else Some (d\<lparr>credit_reports := credit_reports d @ [row]\<rparr>))"

subsection \<open>calcAnomalyScore\<close>

text \<open>
  \<open>SELECT hours, date FROM work_claims WHERE worker_id = ? AND date >= date(?, '-7 days')
  ORDER BY date DESC LIMIT 10\<close>: the rows of the worker dated no earlier than seven days
  before the given date (the query has no upper bound on the date), latest date first,
  at most ten of them.
\<close>

definition recent_claims :: "db \<Rightarrow> string \<Rightarrow> int \<Rightarrow> work_claim list" where
  "recent_claims d workerId date =
     take 10 (rev (sort_key c_date
       (filter (\<lambda>c. c_worker_id c = workerId \<and> c_date c \<ge> date - 7) (work_claims d))))"

text \<open>\<open>SELECT COUNT(*) ... WHERE worker_id = ? AND hours = ? AND date >= date(?, '-14 days')\<close>\<close>

definition sameHours_cnt :: "db \<Rightarrow> string \<Rightarrow> real \<Rightarrow> int \<Rightarrow> nat" where
  "sameHours_cnt d workerId hours date =
     length (filter (\<lambda>c. c_worker_id c = workerId \<and> c_hours c = hours \<and> c_date c \<ge> date - 14)
       (work_claims d))"

definition calcAnomalyScore :: "db \<Rightarrow> string \<Rightarrow> real \<Rightarrow> int \<Rightarrow> real" where
  "calcAnomalyScore d workerId hours date =
     (let score0 = 0;
          score1 = (if hours > 14 then score0 + 0.4 else score0);
          score2 = (if hours > 16 then score1 + 0.35 else score1);
          recent = recent_claims d workerId date;
          avgHours = (if length recent \<noteq> 0
                      then foldl (\<lambda>a b. a + c_hours b) 0 recent / real (length recent)
                      else hours);
          score3 = (if hours > avgHours * 1.8 \<and> length recent \<ge> 3 then score2 + 0.25 else score2);
          score4 = (if sameHours_cnt d workerId hours date \<ge> 5 then score3 + 0.2 else score3)
      in min score4 1.0)"

subsection \<open>POST /api/claims\<close>

text \<open>
  The request: the worker id of the verified token (\<open>None\<close> when the token is missing
  or invalid) and the fields of the body, each absent or present.
\<close>

record claims_req =
  q_auth :: "string option"
  q_hours :: "real option"
  q_task :: "string option"
  q_location_lat :: "real option"
  q_location_lng :: "real option"
  q_date :: "int option"

text \<open>JavaScript's \<open>x || null\<close> on a number: zero and absent are both falsy.\<close>

fun or_null :: "real option \<Rightarrow> real option" where
  "or_null None = None"
| "or_null (Some x) = (if x = 0 then None else Some x)"

definition new_claim :: "env \<Rightarrow> string \<Rightarrow> int \<Rightarrow> real \<Rightarrow> string \<Rightarrow> claims_req \<Rightarrow> real \<Rightarrow> work_claim" where
  "new_claim e workerId claimDate hours task req anomalyScore =
     \<lparr>c_id = e_id e, c_worker_id = workerId, c_date = claimDate, c_hours = hours,
      c_task = task, c_location_lat = or_null (q_location_lat req),
      c_location_lng = or_null (q_location_lng req), c_status = ''pending'',
      c_ipfs_hash = None, c_tx_hash = None, c_block_number = None,
      c_anomaly_score = anomalyScore, c_created_at = e_now e\<rparr>"

definition new_flag :: "env \<Rightarrow> real \<Rightarrow> real \<Rightarrow> anomaly_flag" where
  "new_flag e hours anomalyScore =
     \<lparr>f_id = e_id2 e, f_flagged_entity = e_id e, f_entity_type = ''claim'',
      f_anomaly_type = ''suspicious_hours'', f_risk_score = anomalyScore,
      f_description = e_describe e hours anomalyScore, f_resolved = 0,
      f_created_at = e_now e\<rparr>"

text \<open>\<open>date || new Date().toISOString().slice(0, 10)\<close>\<close>

definition claim_date :: "env \<Rightarrow> claims_req \<Rightarrow> int" where
  "claim_date e req = (case q_date req of None \<Rightarrow> e_today e | Some dt \<Rightarrow> dt)"

definition claims_insert :: "env \<Rightarrow> db \<Rightarrow> claims_req \<Rightarrow> string \<Rightarrow> real \<Rightarrow> string \<Rightarrow> db \<times> response" where
  "claims_insert e d req workerId hours task =
     (let claimDate = claim_date e req in
      case find (\<lambda>c. c_worker_id c = workerId \<and> c_date c = claimDate) (work_claims d) of
        Some existing \<Rightarrow> (d, Error 409 ''Claim already submitted for this date'')
      | None \<Rightarrow>
         (let anomalyScore = calcAnomalyScore d workerId hours claimDate;
              ok = Claim_json (e_id e) claimDate hours task ''pending'' anomalyScore in
          case insert_claim d (new_claim e workerId claimDate hours task req anomalyScore) of
            None \<Rightarrow> (d, Uncaught ''UNIQUE constraint failed: work_claims.id'')
          | Some d1 \<Rightarrow>
             (if anomalyScore > 0.65 then
                (case insert_flag d1 (new_flag e hours anomalyScore) of
                   None \<Rightarrow> (d1, Uncaught ''UNIQUE constraint failed: anomaly_flags.id'')
                 | Some d2 \<Rightarrow> (d2, ok))
              else (d1, ok))))"

definition post_claims :: "env \<Rightarrow> db \<Rightarrow> claims_req \<Rightarrow> db \<times> response" where
  "post_claims e d req =
     (case q_auth req of
        None \<Rightarrow> (d, Error 401 ''No token'')
      | Some workerId \<Rightarrow>
         (case q_hours req of
            None \<Rightarrow> (d, Error 400 ''Missing fields'')
          | Some hours \<Rightarrow>
             (case q_task req of
                None \<Rightarrow> (d, Error 400 ''Missing fields'')
              | Some task \<Rightarrow>
                 if hours = 0 \<or> task = [] then (d, Error 400 ''Missing fields'')
                 else if hours > 16 then (d, Error 400 ''Hours > 16 automatically rejected'')
                 else claims_insert e d req workerId hours task)))"

subsection \<open>POST /api/verify\<close>

text \<open>
  The body's \<open>claim_id\<close> and optional \<open>gps_distance_m\<close>, and the verifier's id from the
  token. (In the message of the GPS error the dash is written in ASCII.)
\<close>

record verify_req =
  a_auth :: "string option"
  a_claim_id :: string
  a_gps_distance_m :: "real option"

definition valid_count :: "db \<Rightarrow> string \<Rightarrow> nat" where
  "valid_count d claim_id =
     length (filter (\<lambda>v. v_claim_id v = claim_id \<and> v_is_valid v = 1) (verifications d))"

definition new_verification :: "env \<Rightarrow> verify_req \<Rightarrow> string \<Rightarrow> verification" where
  "new_verification e req verifierId =
     \<lparr>v_id = e_id e, v_claim_id = a_claim_id req, v_verifier_id = verifierId,
      v_signature = e_claim_hash e, v_gps_distance_m = or_null (a_gps_distance_m req),
      v_verified_at = e_now e, v_is_valid = 1\<rparr>"

definition bump_depth :: "string \<Rightarrow> worker \<Rightarrow> worker" where
  "bump_depth verifierId w =
     (if w_id w = verifierId then w\<lparr>w_verification_depth := w_verification_depth w + 1\<rparr> else w)"

definition seal_row :: "env \<Rightarrow> string \<Rightarrow> work_claim \<Rightarrow> work_claim" where
  "seal_row e claim_id c =
     (if c_id c = claim_id
      then c\<lparr>c_status := ''verified'', c_tx_hash := Some (e_tx_hash e),
             c_ipfs_hash := Some (e_ipfs_hash e), c_block_number := Some (e_block_number e)\<rparr>
      else c)"

definition credit_owner :: "string \<Rightarrow> worker \<Rightarrow> worker" where
  "credit_owner ownerId w =
     (if w_id w = ownerId
      then w\<lparr>w_total_days_worked := w_total_days_worked w + 1,
             w_reputation_score := min 100 (w_reputation_score w + 0.5)\<rparr>
      else w)"

definition verify_record :: "env \<Rightarrow> db \<Rightarrow> verify_req \<Rightarrow> string \<Rightarrow> work_claim \<Rightarrow> db \<times> response" where
  "verify_record e d req verifierId claim =
     (case insert_verification d (new_verification e req verifierId) of
        None \<Rightarrow> (d, Uncaught ''UNIQUE constraint failed: verifications.id'')
      | Some d1 \<Rightarrow>
         (let d2 = d1\<lparr>workers := map (bump_depth verifierId) (workers d1)\<rparr>;
              verifCount = valid_count d2 (a_claim_id req) in
          if verifCount \<ge> 3 then
            (let d3 = d2\<lparr>work_claims := map (seal_row e (a_claim_id req)) (work_claims d2)\<rparr>;
                 d4 = d3\<lparr>workers := map (credit_owner (c_worker_id claim)) (workers d3)\<rparr>
             in (d4, Verify_sealed (e_id e) (e_tx_hash e) (e_ipfs_hash e)))
          else (d2, Verify_unsealed (e_id e) verifCount)))"

definition post_verify :: "env \<Rightarrow> db \<Rightarrow> verify_req \<Rightarrow> db \<times> response" where
  "post_verify e d req =
     (case a_auth req of
        None \<Rightarrow> (d, Error 401 ''No token'')
      | Some verifierId \<Rightarrow>
         (case find (\<lambda>c. c_id c = a_claim_id req) (work_claims d) of
            None \<Rightarrow> (d, Error 404 ''Claim not found'')
          | Some claim \<Rightarrow>
             if c_worker_id claim = verifierId then (d, Error 400 ''Cannot verify own claim'')
             else if c_status claim = ''verified''
               then (d, Error 400 ''Claim already fully verified'')
             else
               (case find (\<lambda>v. v_claim_id v = a_claim_id req \<and> v_verifier_id v = verifierId)
                       (verifications d) of
                  Some dup \<Rightarrow> (d, Error 409 ''Already verified this claim'')
                | None \<Rightarrow>
                   (case or_null (a_gps_distance_m req) of
                      Some g \<Rightarrow>
                        if g > 500
                        then (d, Error 400 ''GPS distance too large - peer must be physically present'')
                        else verify_record e d req verifierId claim
                    | None \<Rightarrow> verify_record e d req verifierId claim))))"

subsection \<open>POST /api/workers/register\<close>

record register_req =
  g_name :: "string option"
  g_location :: "string option"
  g_sector :: "string option"

definition new_worker :: "env \<Rightarrow> string \<Rightarrow> string \<Rightarrow> string \<Rightarrow> worker" where
  "new_worker e name location sector =
     \<lparr>w_id = e_id e, w_name = name, w_location = location, w_sector = sector,
      w_wallet_address = e_wallet_address e, w_public_key = e_public_key e,
      w_reputation_score = 50.0, w_verification_depth = 0, w_total_days_worked = 0,
      w_created_at = e_now e, w_is_active = 1\<rparr>"

text \<open>Here the insert is inside \<open>try\<close>: a thrown constraint error is answered with status 500.\<close>

definition post_register :: "env \<Rightarrow> db \<Rightarrow> register_req \<Rightarrow> db \<times> response" where
  "post_register e d req =
     (case (g_name req, g_location req, g_sector req) of
        (Some name, Some location, Some sector) \<Rightarrow>
          if name = [] \<or> location = [] \<or> sector = [] then (d, Error 400 ''Missing fields'')
          else
            (case insert_worker d (new_worker e name location sector) of
               None \<Rightarrow> (d, Error 500 ''UNIQUE constraint failed'')
             | Some d1 \<Rightarrow> (d1, Register_json (e_id e) (e_private_key e) (e_token e)))
      | _ \<Rightarrow> (d, Error 400 ''Missing fields''))"

subsection \<open>POST /api/finance/credit\<close>

text \<open>\<open>Math.round\<close> rounds to the nearest integer, a half upwards.\<close>

definition js_round :: "real \<Rightarrow> int" where
  "js_round x = \<lfloor>x + 1 / 2\<rfloor>"

definition calcCreditScore :: "int \<Rightarrow> real \<Rightarrow> real \<Rightarrow> int" where
  "calcCreditScore months peers hrs =
     min 850 (js_round ((real_of_int months * 4.5) + (min peers 10 * 15) + (min hrs 40 * 2.5) + 300))"

definition credit_report_of :: "env \<Rightarrow> db \<Rightarrow> worker \<Rightarrow> work_claim list \<Rightarrow> credit_report" where
  "credit_report_of e d worker verifiedClaims =
     (let months = max 1 (js_round (real_of_int (w_total_days_worked worker) / 22));
          avgHrs = foldl (\<lambda>a b. a + c_hours b) 0 verifiedClaims / real (length verifiedClaims);
          weeklyHrs = avgHrs * 5;
          peerCounts = map (\<lambda>c. length (filter (\<lambda>v. v_claim_id v = c_id c) (verifications d)))
                         verifiedClaims;
          avgPeers = real (foldl (\<lambda>a b. a + b) 0 peerCounts) / real (length peerCounts);
          score = calcCreditScore months avgPeers weeklyHrs;
          tier = (if score > 720 then ''PRIME'' else if score > 580 then ''STANDARD''
                  else ''EMERGING'');
          maxLoan = js_round (real_of_int score * real_of_int months * 2.8)
      in \<lparr>r_id = e_id e, r_worker_id = w_id worker, r_score = score, r_tier = tier,
          r_max_loan_usd = maxLoan, r_months_on_chain = months, r_avg_peers = avgPeers,
          r_avg_weekly_hours = weeklyHrs, r_generated_at = e_now e\<rparr>)"

definition post_finance_credit :: "env \<Rightarrow> db \<Rightarrow> string option \<Rightarrow> db \<times> response" where
  "post_finance_credit e d auth =
     (case auth of
        None \<Rightarrow> (d, Error 401 ''No token'')
      | Some workerId \<Rightarrow>
         (case find (\<lambda>w. w_id w = workerId) (workers d) of
            None \<Rightarrow> (d, Error 404 ''Worker not found'')
          | Some worker \<Rightarrow>
             (let verifiedClaims =
                    filter (\<lambda>c. c_worker_id c = workerId \<and> c_status c = ''verified'') (work_claims d)
              in if length verifiedClaims = 0
                 then (d, Error 400 ''No verified claims on chain yet'')
                 else
                   (let r = credit_report_of e d worker verifiedClaims in
                    case insert_report d r of
                      None \<Rightarrow> (d, Uncaught ''UNIQUE constraint failed: credit_reports.id'')
                    | Some d1 \<Rightarrow>
                        (d1, Credit_json (r_id r) (r_score r) (r_tier r) (r_max_loan_usd r)
                               (r_months_on_chain r) (r_avg_peers r) (r_avg_weekly_hours r)
                               (length verifiedClaims))))))"

subsection \<open>POST /api/ai/scan\<close>

text \<open>
  A flag of the scan: its type, its risk label, its score and the entity it points at (a
  row id, or the minute of a cluster). The \<open>label\<close> and \<open>detail\<close> texts are left out.
\<close>

datatype entity = Row string | Minute nat

record flag =
  s_type :: string
  s_risk :: string
  s_score :: real
  s_entity :: entity

record summary =
  total :: int
  high :: int
  medium :: int
  low :: int

text \<open>
  1. \<open>work_claims JOIN workers\<close> with \<open>hours > 16\<close>; when a region is given, the worker's
  location must match \<open>LIKE '%region%'\<close>. SQLite's \<open>LIKE\<close> is not code of the
  repository: it is the parameter \<open>like\<close>.
\<close>

definition region_matches :: "(string \<Rightarrow> string \<Rightarrow> bool) \<Rightarrow> string option \<Rightarrow> worker \<Rightarrow> bool" where
  "region_matches like region w =
     (case region of None \<Rightarrow> True
      | Some r \<Rightarrow> if r = [] then True else like (w_location w) r)"

definition impossibleHours :: "(string \<Rightarrow> string \<Rightarrow> bool) \<Rightarrow> db \<Rightarrow> string option \<Rightarrow> work_claim list" where
  "impossibleHours like d region =
     concat (map (\<lambda>wc. map (\<lambda>w. wc)
        (filter (\<lambda>w. c_worker_id wc = w_id w \<and> c_hours wc > 16 \<and> region_matches like region w)
           (workers d)))
        (work_claims d))"

text \<open>2. The pairs (claim id, owner) a verifier has signed, without repetition.\<close>

definition verifiedBy :: "db \<Rightarrow> string \<Rightarrow> (string \<times> string) list" where
  "verifiedBy d verifier_id =
     remdups (concat (map (\<lambda>v. map (\<lambda>wc. (v_claim_id v, c_worker_id wc))
        (filter (\<lambda>wc. v_claim_id v = c_id wc) (work_claims d)))
        (filter (\<lambda>v. v_verifier_id v = verifier_id) (verifications d))))"

definition clique_flags :: "db \<Rightarrow> flag list" where
  "clique_flags d =
     map (\<lambda>w. \<lparr>s_type = ''clique'', s_risk = ''high'', s_score = 0.87, s_entity = Row w\<rparr>)
       (filter (\<lambda>w. length (remdups (map snd (verifiedBy d w))) = 1 \<and> length (verifiedBy d w) \<ge> 5)
          (remdups (map v_verifier_id (verifications d))))"

text \<open>3. \<open>GROUP BY minute HAVING cnt >= 4\<close> over the minute of \<open>created_at\<close>.\<close>

definition minute_of :: "work_claim \<Rightarrow> nat" where
  "minute_of c = c_created_at c div 60"

definition clusters :: "db \<Rightarrow> nat list" where
  "clusters d =
     filter (\<lambda>m. length (filter (\<lambda>c. minute_of c = m) (work_claims d)) \<ge> 4)
       (sort (remdups (map minute_of (work_claims d))))"

text \<open>4. \<open>SELECT * FROM anomaly_flags WHERE resolved = 0 ORDER BY risk_score DESC LIMIT 10\<close>\<close>

definition dbFlags :: "db \<Rightarrow> anomaly_flag list" where
  "dbFlags d = take 10 (rev (sort_key f_risk_score (filter (\<lambda>f. f_resolved f = 0) (anomaly_flags d))))"

definition scan_flags :: "(string \<Rightarrow> string \<Rightarrow> bool) \<Rightarrow> db \<Rightarrow> string option \<Rightarrow> flag list" where
  "scan_flags like d region =
     map (\<lambda>c. \<lparr>s_type = ''impossible_hours'', s_risk = ''high'', s_score = 0.92, s_entity = Row (c_id c)\<rparr>)
       (impossibleHours like d region)
     @ clique_flags d
     @ map (\<lambda>m. \<lparr>s_type = ''timestamp_cluster'', s_risk = ''medium'', s_score = 0.71,
                 s_entity = Minute m\<rparr>) (clusters d)
     @ map (\<lambda>f. \<lparr>s_type = f_anomaly_type f,
                 s_risk = (if f_risk_score f > 0.7 then ''high'' else ''medium''),
                 s_score = f_risk_score f, s_entity = Row (f_flagged_entity f)\<rparr>) (dbFlags d)"

definition summarise :: "flag list \<Rightarrow> summary" where
  "summarise flags =
     (let h = int (length (filter (\<lambda>f. s_risk f = ''high'') flags));
          m = int (length (filter (\<lambda>f. s_risk f = ''medium'') flags))
      in \<lparr>total = int (length flags), high = h, medium = m, low = int (length flags) - h - m\<rparr>)"

definition post_ai_scan :: "(string \<Rightarrow> string \<Rightarrow> bool) \<Rightarrow> db \<Rightarrow> string option \<Rightarrow> flag list \<times> summary" where
  "post_ai_scan like d region = (scan_flags like d region, summarise (scan_flags like d region))"

subsection \<open>The ledgers the backend can reach\<close>

text \<open>
  From the empty tables, by any sequence of the four handlers that write these tables,
  with any request and any values drawn from outside. (The scan only reads; the
  certification handler writes a table of its own, which is not modelled.)
\<close>

inductive reachable :: "db \<Rightarrow> bool" where
  reachable_empty: "reachable empty_db"
| reachable_register: "reachable d \<Longrightarrow> reachable (fst (post_register e d g))"
| reachable_claims: "reachable d \<Longrightarrow> reachable (fst (post_claims e d q))"
| reachable_verify: "reachable d \<Longrightarrow> reachable (fst (post_verify e d a))"
| reachable_credit: "reachable d \<Longrightarrow> reachable (fst (post_finance_credit e d auth))"

section \<open>The contract (ProofOfWork.sol)\<close>

text \<open>
  Addresses, \<open>bytes32\<close> values and \<open>uint256\<close> values are natural numbers; \<open>address(0)\<close> is
  \<open>0\<close>. A Solidity \<open>mapping\<close> is a total function whose default is the zero value. The
  fields of the two structs carry the prefix \<open>wk_\<close> (\<open>Worker\<close>) and \<open>wc_\<close> (\<open>WorkClaim\<close>).
  Arithmetic is checked (Solidity 0.8): an overflow reverts. Events are not modelled.
\<close>

datatype ClaimStatus = Pending | PartiallyVerified | Verified | Rejected

record Worker =
  wk_wallet :: nat
  wk_name :: string
  wk_location :: string
  wk_sector :: string
  wk_reputationScore :: nat
  wk_verifiedDays :: nat
  wk_registeredAt :: nat
  wk_isActive :: bool

record WorkClaim =
  wc_id :: nat
  wc_worker :: nat
  wc_date :: nat
  wc_hours :: nat
  wc_taskHash :: string
  wc_verifiers :: "nat list"
  wc_status :: ClaimStatus
  wc_ipfsRecord :: nat
  wc_sealedAt :: nat

definition REQUIRED_VERIFIERS :: nat where "REQUIRED_VERIFIERS = 3"
definition MAX_DAILY_HOURS :: nat where "MAX_DAILY_HOURS = 160"
definition REP_GAIN_VERIFY :: nat where "REP_GAIN_VERIFY = 50"
definition REP_LOSS_FALSE :: nat where "REP_LOSS_FALSE = 500"
definition BASE_REP :: nat where "BASE_REP = 5000"

definition uint256_max :: nat where
  "uint256_max = 2 ^ 256 - 1"

record chain =
  workers_m :: "nat \<Rightarrow> Worker"
  claims_m :: "nat \<Rightarrow> WorkClaim"
  workerClaims :: "nat \<Rightarrow> nat list"
  registeredWorkers :: "nat \<Rightarrow> bool"
  hasVerified :: "nat \<Rightarrow> nat \<Rightarrow> bool"
  owner :: nat
  totalWorkers :: nat
  totalVerifiedClaims :: nat
  totalCerts :: nat

record txenv =
  msg_sender :: nat
  block_timestamp :: nat
  block_number :: nat

definition zero_Worker :: Worker where
  "zero_Worker = \<lparr>wk_wallet = 0, wk_name = [], wk_location = [], wk_sector = [],
     wk_reputationScore = 0, wk_verifiedDays = 0, wk_registeredAt = 0, wk_isActive = False\<rparr>"

definition zero_WorkClaim :: WorkClaim where
  "zero_WorkClaim = \<lparr>wc_id = 0, wc_worker = 0, wc_date = 0, wc_hours = 0, wc_taskHash = [],
     wc_verifiers = [], wc_status = Pending, wc_ipfsRecord = 0, wc_sealedAt = 0\<rparr>"

text \<open>The storage after the constructor has run for the deployer.\<close>

definition deployed :: "nat \<Rightarrow> chain" where
  "deployed deployer =
     \<lparr>workers_m = (\<lambda>a. zero_Worker), claims_m = (\<lambda>i. zero_WorkClaim),
      workerClaims = (\<lambda>a. []), registeredWorkers = (\<lambda>a. False),
      hasVerified = (\<lambda>i a. False), owner = deployer, totalWorkers = 0,
      totalVerifiedClaims = 0, totalCerts = 0\<rparr>"

text \<open>
  A call either reverts with a reason (\<open>Inl\<close>) or returns the new storage (\<open>Inr\<close>). A
  reverted call leaves the storage as it was before the call: \<open>after\<close>.
\<close>

definition after :: "chain \<Rightarrow> string + chain \<Rightarrow> chain" where
  "after s r = (case r of Inl reason \<Rightarrow> s | Inr s' \<Rightarrow> s')"

definition registerWorker :: "txenv \<Rightarrow> chain \<Rightarrow> string \<Rightarrow> string \<Rightarrow> string \<Rightarrow> string + chain" where
  "registerWorker tx s name location sector =
     (if registeredWorkers s (msg_sender tx) then Inl ''Already registered''
      else if \<not> length name > 0 then Inl ''Name required''
      else if totalWorkers s + 1 > uint256_max then Inl ''Panic(0x11)''
      else Inr (s\<lparr>workers_m := (workers_m s)(msg_sender tx :=
                     \<lparr>wk_wallet = msg_sender tx, wk_name = name, wk_location = location,
                      wk_sector = sector, wk_reputationScore = BASE_REP, wk_verifiedDays = 0,
                      wk_registeredAt = block_timestamp tx, wk_isActive = True\<rparr>),
                  registeredWorkers := (registeredWorkers s)(msg_sender tx := True),
                  totalWorkers := totalWorkers s + 1\<rparr>))"

text \<open>
  \<open>keccak256(abi.encodePacked(...))\<close> is not code of the repository: it is the parameter
  \<open>keccak\<close>, applied to the list of the packed values.
\<close>

definition submitClaim :: "(nat list \<Rightarrow> nat) \<Rightarrow> txenv \<Rightarrow> chain \<Rightarrow> nat \<Rightarrow> nat \<Rightarrow> string \<Rightarrow> string + chain" where
  "submitClaim keccak tx s date hoursX10 taskHash =
     (if \<not> registeredWorkers s (msg_sender tx) then Inl ''Worker not registered''
      else if \<not> (hoursX10 > 0 \<and> hoursX10 \<le> MAX_DAILY_HOURS) then Inl ''Invalid hours''
      else if \<not> length taskHash > 0 then Inl ''Task hash required''
      else
        (let claimId = keccak [msg_sender tx, date, block_timestamp tx];
             claim = claims_m s claimId
         in Inr (s\<lparr>claims_m := (claims_m s)(claimId :=
                      claim\<lparr>wc_id := claimId, wc_worker := msg_sender tx, wc_date := date,
                            wc_hours := hoursX10, wc_taskHash := taskHash,
                            wc_status := Pending\<rparr>),
                    workerClaims := (workerClaims s)(msg_sender tx :=
                      workerClaims s (msg_sender tx) @ [claimId])\<rparr>)))"

definition sealClaim :: "(nat list \<Rightarrow> nat) \<Rightarrow> txenv \<Rightarrow> chain \<Rightarrow> nat \<Rightarrow> string + chain" where
  "sealClaim keccak tx s claimId =
     (let claim = claims_m s claimId;
          s1 = s\<lparr>claims_m := (claims_m s)(claimId :=
                  claim\<lparr>wc_status := Verified, wc_sealedAt := block_timestamp tx,
                        wc_ipfsRecord := keccak [claimId, block_timestamp tx, block_number tx]\<rparr>)\<rparr>;
          w = workers_m s1 (wc_worker claim)
      in if wk_verifiedDays w + 1 > uint256_max then Inl ''Panic(0x11)''
         else if totalVerifiedClaims s1 + 1 > uint256_max then Inl ''Panic(0x11)''
         else Inr (s1\<lparr>workers_m := (workers_m s1)(wc_worker claim :=
                         w\<lparr>wk_verifiedDays := wk_verifiedDays w + 1\<rparr>),
                       totalVerifiedClaims := totalVerifiedClaims s1 + 1\<rparr>))"

definition verifyClaim :: "(nat list \<Rightarrow> nat) \<Rightarrow> txenv \<Rightarrow> chain \<Rightarrow> nat \<Rightarrow> string + chain" where
  "verifyClaim keccak tx s claimId =
     (let claim = claims_m s claimId; sender = msg_sender tx in
      if \<not> registeredWorkers s sender then Inl ''Worker not registered''
      else if \<not> wc_worker claim \<noteq> 0 then Inl ''Claim not found''
      else if \<not> wc_worker claim \<noteq> sender then Inl ''Cannot verify own claim''
      else if hasVerified s claimId sender then Inl ''Already verified''
      else if \<not> wc_status claim \<noteq> Verified then Inl ''Already sealed''
      else if \<not> wc_status claim \<noteq> Rejected then Inl ''Claim rejected''
      else if \<not> wk_reputationScore (workers_m s sender) \<ge> 1000
        then Inl ''Reputation too low to verify''
      else
        (let s1 = s\<lparr>hasVerified := (hasVerified s)(claimId := (hasVerified s claimId)(sender := True)),
                    claims_m := (claims_m s)(claimId :=
                      claim\<lparr>wc_verifiers := wc_verifiers claim @ [sender]\<rparr>)\<rparr>;
             oldRep = wk_reputationScore (workers_m s1 sender)
         in if oldRep + REP_GAIN_VERIFY > uint256_max then Inl ''Panic(0x11)''
            else
              (let s2 = s1\<lparr>workers_m := (workers_m s1)(sender :=
                            (workers_m s1 sender)\<lparr>wk_reputationScore := oldRep + REP_GAIN_VERIFY\<rparr>)\<rparr>;
                   count = length (wc_verifiers (claims_m s2 claimId))
               in if count \<ge> REQUIRED_VERIFIERS then sealClaim keccak tx s2 claimId
                  else Inr (s2\<lparr>claims_m := (claims_m s2)(claimId :=
                                 (claims_m s2 claimId)\<lparr>wc_status := PartiallyVerified\<rparr>)\<rparr>))))"

section \<open>The backend's status column and the contract's enum\<close>

text \<open>
  The backend writes two texts into \<open>status\<close>: the column default \<open>pending\<close> and, on
  sealing, \<open>verified\<close>. They are the contract's \<open>Pending\<close> and \<open>Verified\<close>; no text of the
  backend stands for \<open>PartiallyVerified\<close> or \<open>Rejected\<close>.
\<close>

definition status_of :: "string \<Rightarrow> ClaimStatus option" where
  "status_of st = (if st = ''pending'' then Some Pending
                   else if st = ''verified'' then Some Verified else None)"

section \<open>Invariant, reachability between ledgers, and the score in the spec's words\<close>

text \<open>
  What every ledger the backend can reach satisfies: each verification is valid and points
  at a stored claim; each claim is either \<open>verified\<close> with exactly three valid
  verifications, or \<open>pending\<close> with at most two and no settlement columns; no two claims
  share (worker, date); no two share an id.
\<close>

definition ledger_inv :: "db \<Rightarrow> bool" where
  "ledger_inv d \<longleftrightarrow>
     (\<forall>v\<in>set (verifications d). v_is_valid v = 1 \<and> v_claim_id v \<in> set (map c_id (work_claims d)))
   \<and> (\<forall>c\<in>set (work_claims d).
         (c_status c = ''verified'' \<and> valid_count d (c_id c) = 3)
       \<or> (c_status c = ''pending'' \<and> valid_count d (c_id c) \<le> 2 \<and> c_tx_hash c = None
            \<and> c_ipfs_hash c = None \<and> c_block_number c = None))
   \<and> distinct (map (\<lambda>c. (c_worker_id c, c_date c)) (work_claims d))
   \<and> distinct (map c_id (work_claims d))"

text \<open>\<open>reaches d d'\<close>: some sequence of handler calls leads from \<open>d\<close> to \<open>d'\<close>.\<close>

inductive reaches :: "db \<Rightarrow> db \<Rightarrow> bool" where
  reaches_refl: "reaches d d"
| reaches_register: "reaches d d' \<Longrightarrow> reaches d (fst (post_register e d' g))"
| reaches_claims: "reaches d d' \<Longrightarrow> reaches d (fst (post_claims e d' q))"
| reaches_verify: "reaches d d' \<Longrightarrow> reaches d (fst (post_verify e d' a))"
| reaches_credit: "reaches d d' \<Longrightarrow> reaches d (fst (post_finance_credit e d' auth))"

text \<open>The claims of a worker with a given date, and all recorded attestations of a claim.\<close>

definition claims_for :: "db \<Rightarrow> string \<Rightarrow> int \<Rightarrow> work_claim list" where
  "claims_for d w dt = filter (\<lambda>c. c_worker_id c = w \<and> c_date c = dt) (work_claims d)"

definition attestations :: "db \<Rightarrow> string \<Rightarrow> verification list" where
  "attestations d claim_id = filter (\<lambda>v. v_claim_id v = claim_id) (verifications d)"

text \<open>The (worker, date) pairs for which the ledger holds a claim.\<close>

definition keys :: "db \<Rightarrow> (string \<times> int) set" where
  "keys d = set (map (\<lambda>c. (c_worker_id c, c_date c)) (work_claims d))"








section \<open>Concrete ledgers\<close>

text \<open>
  Four workers register; worker A submits 8 hours for day 100; B, C and D attest in turn.
  Each ledger is what the handlers return, so each is reachable.
\<close>

definition env_of :: "string \<Rightarrow> env" where
  "env_of i = \<lparr>e_id = i, e_id2 = i @ ''-flag'', e_tx_hash = ''0x'' @ i, e_ipfs_hash = ''Qm'' @ i,
     e_block_number = 48123, e_claim_hash = ''sha-'' @ i, e_wallet_address = ''0xw'' @ i,
     e_public_key = ''pk-'' @ i, e_private_key = ''sk-'' @ i, e_token = ''jwt-'' @ i,
     e_today = 100, e_now = 6000, e_describe = (\<lambda>h s. ''Worker claimed'')\<rparr>"

definition reg :: register_req where
  "reg = \<lparr>g_name = Some ''Amina'', g_location = Some ''Kericho, KE'', g_sector = Some ''Tea''\<rparr>"

definition submit_req :: "string \<Rightarrow> real \<Rightarrow> string \<Rightarrow> int \<Rightarrow> claims_req" where
  "submit_req w h t dt = \<lparr>q_auth = Some w, q_hours = Some h, q_task = Some t,
     q_location_lat = None, q_location_lng = None, q_date = Some dt\<rparr>"

definition attest_req :: "string \<Rightarrow> string \<Rightarrow> verify_req" where
  "attest_req v c = \<lparr>a_auth = Some v, a_claim_id = c, a_gps_distance_m = Some 20\<rparr>"

text \<open>The rows these calls insert.\<close>

definition worker_ex :: "string \<Rightarrow> worker" where
  "worker_ex i = new_worker (env_of i) ''Amina'' ''Kericho, KE'' ''Tea''"

definition claim_ex :: "string \<Rightarrow> string \<Rightarrow> real \<Rightarrow> string \<Rightarrow> int \<Rightarrow> work_claim" where
  "claim_ex i w h t dt = new_claim (env_of i) w dt h t (submit_req w h t dt) 0"

definition ver_ex :: "string \<Rightarrow> string \<Rightarrow> verification" where
  "ver_ex i v = new_verification (env_of i) (attest_req v ''c1'') v"

definition db_workers :: db where
  "db_workers = fst (post_register (env_of ''D'') (fst (post_register (env_of ''C'')
      (fst (post_register (env_of ''B'') (fst (post_register (env_of ''A'') empty_db reg)) reg))
      reg)) reg)"

definition db_pending :: db where
  "db_pending = fst (post_claims (env_of ''c1'') db_workers (submit_req ''A'' 8 ''Tea harvesting'' 100))"

definition db_one :: db where
  "db_one = fst (post_verify (env_of ''v1'') db_pending (attest_req ''B'' ''c1''))"

definition db_two :: db where
  "db_two = fst (post_verify (env_of ''v2'') db_one (attest_req ''C'' ''c1''))"

definition db_sealed :: db where
  "db_sealed = fst (post_verify (env_of ''v3'') db_two (attest_req ''D'' ''c1''))"



text \<open>A stand-in for \<open>LIKE\<close> (no scan below gives a region).\<close>

definition like_any :: "string \<Rightarrow> string \<Rightarrow> bool" where
  "like_any location region = True"

text \<open>The four workers each submit 8 hours for day 100 within the same minute.\<close>

definition db_cluster :: db where
  "db_cluster = fst (post_claims (env_of ''k4'')
      (fst (post_claims (env_of ''k3'')
         (fst (post_claims (env_of ''k2'')
            (fst (post_claims (env_of ''k1'') db_workers (submit_req ''A'' 8 ''Picking'' 100)))
            (submit_req ''B'' 8 ''Picking'' 100)))
         (submit_req ''C'' 8 ''Picking'' 100)))
      (submit_req ''D'' 8 ''Picking'' 100))"

section \<open>Concrete contract storage\<close>

text \<open>
  A stand-in for \<open>keccak256\<close> on the packed values, and a block with timestamp 3 in
  which all the calls below are made. Accounts 1 to 5 register; account 1 submits a claim
  for day 2; accounts 2, 3 and 4 verify it; account 1 submits again for the same day
  in the same block; account 5 verifies.
\<close>

definition pack :: "nat list \<Rightarrow> nat" where
  "pack xs = foldr (\<lambda>x acc. x + 10 * acc) xs 0"

definition tx_of :: "nat \<Rightarrow> txenv" where
  "tx_of a = \<lparr>msg_sender = a, block_timestamp = 3, block_number = 7\<rparr>"

definition claim_1 :: nat where
  "claim_1 = pack [1, 2, 3]"

definition run :: "chain \<Rightarrow> (chain \<Rightarrow> string + chain) \<Rightarrow> chain" where
  "run s call = after s (call s)"

definition chain_registered :: chain where
  "chain_registered = foldl run (deployed 9)
     [\<lambda>s. registerWorker (tx_of 1) s ''Amina'' ''Kericho'' ''Tea'',
      \<lambda>s. registerWorker (tx_of 2) s ''Joseph'' ''Kericho'' ''Tea'',
      \<lambda>s. registerWorker (tx_of 3) s ''Fatuma'' ''Kericho'' ''Tea'',
      \<lambda>s. registerWorker (tx_of 4) s ''Kibeti'' ''Nairobi'' ''Construction'',
      \<lambda>s. registerWorker (tx_of 5) s ''Abebe'' ''Oromia'' ''Coffee'']"

definition chain_submitted :: chain where
  "chain_submitted = run chain_registered (\<lambda>s. submitClaim pack (tx_of 1) s 2 80 ''QmTask'')"

definition chain_two :: chain where
  "chain_two = foldl run chain_submitted
     [\<lambda>s. verifyClaim pack (tx_of 2) s claim_1,
      \<lambda>s. verifyClaim pack (tx_of 3) s claim_1]"

definition chain_sealed :: chain where
  "chain_sealed = foldl run chain_submitted
     [\<lambda>s. verifyClaim pack (tx_of 2) s claim_1,
      \<lambda>s. verifyClaim pack (tx_of 3) s claim_1,
      \<lambda>s. verifyClaim pack (tx_of 4) s claim_1]"

definition chain_resubmitted :: chain where
  "chain_resubmitted = run chain_sealed (\<lambda>s. submitClaim pack (tx_of 1) s 2 80 ''QmTask'')"

definition chain_resealed :: chain where
  "chain_resealed = run chain_resubmitted (\<lambda>s. verifyClaim pack (tx_of 5) s claim_1)"

text \<open>The submitted claim with the status \<open>Rejected\<close> in storage.\<close>

definition chain_rejected :: chain where
  "chain_rejected = chain_submitted\<lparr>claims_m := (claims_m chain_submitted)
     (claim_1 := (claims_m chain_submitted claim_1)\<lparr>wc_status := Rejected\<rparr>)\<rparr>"

text \<open>Account 2 with the reputation 100.00 (a hundred verifications after its registration).\<close>

definition chain_rich :: chain where
  "chain_rich = chain_submitted\<lparr>workers_m := (workers_m chain_submitted)
     (2 := (workers_m chain_submitted 2)\<lparr>wk_reputationScore := 10000\<rparr>)\<rparr>"

section \<open>Lemmas on the backend's handlers\<close>

lemma find_None_set: "find P xs = None \<longleftrightarrow> (\<forall>x\<in>set xs. \<not> P x)"
  by (induction xs) auto

lemma find_Some_set: "find P xs = Some x \<Longrightarrow> x \<in> set xs \<and> P x"
  by (induction xs) (auto split: if_splits)

lemma new_claim_simps [simp]:
  "c_id (new_claim e w dt h t q sc) = e_id e"
  "c_worker_id (new_claim e w dt h t q sc) = w"
  "c_date (new_claim e w dt h t q sc) = dt"
  "c_hours (new_claim e w dt h t q sc) = h"
  "c_status (new_claim e w dt h t q sc) = ''pending''"
  "c_tx_hash (new_claim e w dt h t q sc) = None"
  "c_ipfs_hash (new_claim e w dt h t q sc) = None"
  "c_block_number (new_claim e w dt h t q sc) = None"
  by (simp_all add: new_claim_def)

lemma insert_claim_Some:
  "insert_claim d row = Some d1 \<Longrightarrow>
     c_id row \<notin> set (map c_id (work_claims d)) \<and> d1 = d\<lparr>work_claims := work_claims d @ [row]\<rparr>"
  by (simp add: insert_claim_def split: if_splits)

lemma insert_flag_Some:
  "insert_flag d row = Some d1 \<Longrightarrow> d1 = d\<lparr>anomaly_flags := anomaly_flags d @ [row]\<rparr>"
  by (simp add: insert_flag_def split: if_splits)

lemma claims_insert_cases:
  assumes "claims_insert e d q w h t = (d', r)"
  shows "d' = d \<and> is_error r \<or>
         (find (\<lambda>c. c_worker_id c = w \<and> c_date c = claim_date e q) (work_claims d) = None
          \<and> e_id e \<notin> set (map c_id (work_claims d))
          \<and> work_claims d' = work_claims d @ [new_claim e w (claim_date e q) h t q (calcAnomalyScore d w h (claim_date e q))]
          \<and> verifications d' = verifications d \<and> workers d' = workers d
          \<and> credit_reports d' = credit_reports d
          \<and> (r = Claim_json (e_id e) (claim_date e q) h t ''pending'' (calcAnomalyScore d w h (claim_date e q))
               \<or> r = Uncaught ''UNIQUE constraint failed: anomaly_flags.id''))"
proof (cases "find (\<lambda>c. c_worker_id c = w \<and> c_date c = claim_date e q) (work_claims d)")
  case (Some existing)
  with assms show ?thesis by (auto simp: claims_insert_def)
next
  case None
  define sc where "sc = calcAnomalyScore d w h (claim_date e q)"
  define row where "row = new_claim e w (claim_date e q) h t q sc"
  show ?thesis
  proof (cases "insert_claim d row")
    case n: None
    with assms None show ?thesis
      by (auto simp: claims_insert_def Let_def row_def sc_def)
  next
    case (Some d1)
    note d1 = insert_claim_Some[OF Some]
    have fresh: "e_id e \<notin> set (map c_id (work_claims d))" using d1 by (simp add: row_def)
    show ?thesis
    proof (cases "sc > 0.65")
      case False
      with assms None Some have "d' = d1"
        "r = Claim_json (e_id e) (claim_date e q) h t ''pending'' sc"
        by (auto simp: claims_insert_def Let_def row_def sc_def)
      with d1 None fresh show ?thesis by (simp add: row_def sc_def)
    next
      case True
      show ?thesis
      proof (cases "insert_flag d1 (new_flag e h sc)")
        case n: None
        with assms None Some True have "d' = d1"
          "r = Uncaught ''UNIQUE constraint failed: anomaly_flags.id''"
          by (auto simp: claims_insert_def Let_def row_def sc_def)
        with d1 None fresh show ?thesis by (simp add: row_def sc_def)
      next
        case s2: (Some d2)
        with assms None Some True have "d' = d2"
          "r = Claim_json (e_id e) (claim_date e q) h t ''pending'' sc"
          by (auto simp: claims_insert_def Let_def row_def sc_def)
        with d1 None fresh insert_flag_Some[OF s2] show ?thesis by (simp add: row_def sc_def)
      qed
    qed
  qed
qed

lemma post_claims_unfold:
  "post_claims e d q = (d', r) \<Longrightarrow>
     d' = d \<and> is_error r \<or>
     (\<exists>w h t. q_auth q = Some w \<and> q_hours q = Some h \<and> q_task q = Some t
        \<and> h \<noteq> 0 \<and> t \<noteq> [] \<and> h \<le> 16 \<and> claims_insert e d q w h t = (d', r))"
  unfolding post_claims_def
  by (cases "q_auth q"; cases "q_hours q"; cases "q_task q") (auto split: if_splits)

lemma new_verification_simps [simp]:
  "v_id (new_verification e a v) = e_id e"
  "v_claim_id (new_verification e a v) = a_claim_id a"
  "v_verifier_id (new_verification e a v) = v"
  "v_is_valid (new_verification e a v) = 1"
  by (simp_all add: new_verification_def)

lemma valid_count_workers [simp]: "valid_count (d\<lparr>workers := ws\<rparr>) x = valid_count d x"
  by (simp add: valid_count_def)

lemma valid_count_claims [simp]: "valid_count (d\<lparr>work_claims := cs\<rparr>) x = valid_count d x"
  by (simp add: valid_count_def)

lemma verify_record_cases:
  assumes "verify_record e d a v claim = (d', r)"
  shows "d' = d \<and> is_error r \<or>
         (e_id e \<notin> set (map v_id (verifications d))
          \<and> verifications d' = verifications d @ [new_verification e a v]
          \<and> anomaly_flags d' = anomaly_flags d \<and> credit_reports d' = credit_reports d
          \<and> (if valid_count d' (a_claim_id a) \<ge> 3
              then work_claims d' = map (seal_row e (a_claim_id a)) (work_claims d)
                \<and> workers d' = map (credit_owner (c_worker_id claim)) (map (bump_depth v) (workers d))
                \<and> r = Verify_sealed (e_id e) (e_tx_hash e) (e_ipfs_hash e)
              else work_claims d' = work_claims d
                \<and> workers d' = map (bump_depth v) (workers d)
                \<and> r = Verify_unsealed (e_id e) (valid_count d' (a_claim_id a))))"
proof (cases "insert_verification d (new_verification e a v)")
  case None
  with assms show ?thesis by (auto simp: verify_record_def)
next
  case (Some d1)
  then have fresh: "e_id e \<notin> set (map v_id (verifications d))"
    and d1: "d1 = d\<lparr>verifications := verifications d @ [new_verification e a v]\<rparr>"
    by (auto simp: insert_verification_def split: if_splits)
  define d2 where "d2 = d1\<lparr>workers := map (bump_depth v) (workers d1)\<rparr>"
  show ?thesis
  proof (cases "valid_count d2 (a_claim_id a) \<ge> 3")
    case True
    with assms Some have "d' = d2\<lparr>work_claims := map (seal_row e (a_claim_id a)) (work_claims d2),
        workers := map (credit_owner (c_worker_id claim)) (workers d2)\<rparr>"
      and "r = Verify_sealed (e_id e) (e_tx_hash e) (e_ipfs_hash e)"
      by (auto simp: verify_record_def Let_def d2_def)
    with True fresh show ?thesis by (simp add: d2_def d1)
  next
    case False
    with assms Some have "d' = d2" and "r = Verify_unsealed (e_id e) (valid_count d2 (a_claim_id a))"
      by (auto simp: verify_record_def Let_def d2_def)
    with False fresh show ?thesis by (simp add: d2_def d1)
  qed
qed

lemma post_verify_unfold:
  "post_verify e d a = (d', r) \<Longrightarrow>
     d' = d \<and> is_error r \<or>
     (\<exists>v claim. a_auth a = Some v
        \<and> find (\<lambda>c. c_id c = a_claim_id a) (work_claims d) = Some claim
        \<and> c_worker_id claim \<noteq> v \<and> c_status claim \<noteq> ''verified''
        \<and> find (\<lambda>x. v_claim_id x = a_claim_id a \<and> v_verifier_id x = v) (verifications d) = None
        \<and> (\<forall>g. or_null (a_gps_distance_m a) = Some g \<longrightarrow> g \<le> 500)
        \<and> verify_record e d a v claim = (d', r))"
  unfolding post_verify_def
  by (cases "a_auth a"; cases "find (\<lambda>c. c_id c = a_claim_id a) (work_claims d)";
      cases "find (\<lambda>x. v_claim_id x = a_claim_id a \<and> v_verifier_id x = the (a_auth a)) (verifications d)";
      cases "or_null (a_gps_distance_m a)")
     (auto split: if_splits)

lemma valid_count_cong: "verifications d' = verifications d \<Longrightarrow> valid_count d' x = valid_count d x"
  by (simp add: valid_count_def)

lemma valid_count_app:
  "verifications d' = verifications d @ [new_verification e a v] \<Longrightarrow>
     valid_count d' x = valid_count d x + (if x = a_claim_id a then 1 else 0)"
  by (simp add: valid_count_def)

lemma seal_row_simps [simp]:
  "c_id (seal_row e x c) = c_id c"
  "c_worker_id (seal_row e x c) = c_worker_id c"
  "c_date (seal_row e x c) = c_date c"
  by (simp_all add: seal_row_def)

lemma ledger_inv_empty: "ledger_inv empty_db"
  by (simp add: ledger_inv_def empty_db_def)

lemma register_tables:
  "work_claims (fst (post_register e d g)) = work_claims d
   \<and> verifications (fst (post_register e d g)) = verifications d"
  by (simp add: post_register_def insert_worker_def split: option.splits if_splits)

lemma ledger_inv_register: "ledger_inv d \<Longrightarrow> ledger_inv (fst (post_register e d g))"
  using register_tables[of e d g] by (simp add: ledger_inv_def valid_count_def)

lemma ledger_inv_credit: "ledger_inv d \<Longrightarrow> ledger_inv (fst (post_finance_credit e d auth))"
  by (auto simp: post_finance_credit_def insert_report_def ledger_inv_def valid_count_def Let_def
      split: option.splits if_splits)

lemma valid_count_zero:
  "x \<notin> v_claim_id ` set (verifications d) \<Longrightarrow> valid_count d x = 0"
  by (auto simp: valid_count_def filter_empty_conv)

lemma ledger_inv_claims:
  assumes inv: "ledger_inv d"
  shows "ledger_inv (fst (post_claims e d q))"
proof -
  obtain d' r where pc: "post_claims e d q = (d', r)" by (cases "post_claims e d q")
  from post_claims_unfold[OF pc] show ?thesis
  proof (elim disjE exE conjE)
    assume "d' = d"
    with pc inv show ?thesis by simp
  next
    fix w h t
    assume ci: "claims_insert e d q w h t = (d', r)"
    let ?nc = "new_claim e w (claim_date e q) h t q (calcAnomalyScore d w h (claim_date e q))"
    from claims_insert_cases[OF ci] consider (same) "d' = d"
      | (ins) "find (\<lambda>c. c_worker_id c = w \<and> c_date c = claim_date e q) (work_claims d) = None"
          "e_id e \<notin> set (map c_id (work_claims d))"
          "work_claims d' = work_claims d @ [?nc]"
          "verifications d' = verifications d"
      by (elim disjE conjE) simp_all
    then show ?thesis
    proof cases
      case same
      with pc inv show ?thesis by simp
    next
      case ins
      note nodup = ins(1) and fresh = ins(2) and wc = ins(3) and vs = ins(4)
      have vc: "\<And>x. valid_count d' x = valid_count d x"
        using vs by (rule valid_count_cong)
      have novs: "e_id e \<notin> v_claim_id ` set (verifications d)"
        using inv fresh by (auto simp: ledger_inv_def)
      have zero: "valid_count d (e_id e) = 0"
        using novs by (rule valid_count_zero)
      have key: "(w, claim_date e q) \<notin> set (map (\<lambda>c. (c_worker_id c, c_date c)) (work_claims d))"
        using nodup by (auto simp: find_None_set)
      have 1: "\<forall>v\<in>set (verifications d'). v_is_valid v = 1 \<and> v_claim_id v \<in> set (map c_id (work_claims d'))"
        using inv by (auto simp: ledger_inv_def wc vs)
      have 2: "\<forall>c\<in>set (work_claims d').
         (c_status c = ''verified'' \<and> valid_count d' (c_id c) = 3)
       \<or> (c_status c = ''pending'' \<and> valid_count d' (c_id c) \<le> 2 \<and> c_tx_hash c = None
            \<and> c_ipfs_hash c = None \<and> c_block_number c = None)"
        using inv zero by (auto simp: ledger_inv_def wc vc)
      have 3: "distinct (map (\<lambda>c. (c_worker_id c, c_date c)) (work_claims d'))"
        using inv key by (auto simp: ledger_inv_def wc)
      have 4: "distinct (map c_id (work_claims d'))"
        using inv fresh by (auto simp: ledger_inv_def wc)
      from 1 2 3 4 have "ledger_inv d'" unfolding ledger_inv_def by blast
      with pc show ?thesis by simp
    qed
  qed
qed

lemma ledger_inv_verify:
  assumes inv: "ledger_inv d"
  shows "ledger_inv (fst (post_verify e d a))"
proof -
  obtain d' r where pv: "post_verify e d a = (d', r)" by (cases "post_verify e d a")
  from post_verify_unfold[OF pv] show ?thesis
  proof (elim disjE exE conjE)
    assume "d' = d"
    with pv inv show ?thesis by simp
  next
    fix v claim
    assume found: "find (\<lambda>c. c_id c = a_claim_id a) (work_claims d) = Some claim"
      and notver: "c_status claim \<noteq> ''verified''"
      and vr: "verify_record e d a v claim = (d', r)"
    from verify_record_cases[OF vr] show ?thesis
    proof (elim disjE conjE)
      assume "d' = d"
      with pv inv show ?thesis by simp
    next
      assume vs: "verifications d' = verifications d @ [new_verification e a v]"
        and br: "if 3 \<le> valid_count d' (a_claim_id a)
           then work_claims d' = map (seal_row e (a_claim_id a)) (work_claims d)
             \<and> workers d' = map (credit_owner (c_worker_id claim)) (map (bump_depth v) (workers d))
             \<and> r = Verify_sealed (e_id e) (e_tx_hash e) (e_ipfs_hash e)
           else work_claims d' = work_claims d
             \<and> workers d' = map (bump_depth v) (workers d)
             \<and> r = Verify_unsealed (e_id e) (valid_count d' (a_claim_id a))"
      have cl: "claim \<in> set (work_claims d)" "c_id claim = a_claim_id a"
        using find_Some_set[OF found] by simp_all
      have vc: "\<And>x. valid_count d' x = valid_count d x + (if x = a_claim_id a then 1 else 0)"
        using vs by (rule valid_count_app)
      have low: "valid_count d (a_claim_id a) \<le> 2"
        using inv cl notver by (auto simp: ledger_inv_def)
      have pend: "\<And>c. c \<in> set (work_claims d) \<Longrightarrow> c_id c = a_claim_id a \<Longrightarrow>
          c_status c = ''pending'' \<and> c_tx_hash c = None \<and> c_ipfs_hash c = None \<and> c_block_number c = None"
        using inv low by (auto simp: ledger_inv_def)
      have ids: "map c_id (work_claims d') = map c_id (work_claims d)"
        using br by (auto split: if_splits)
      have keys: "map (\<lambda>c. (c_worker_id c, c_date c)) (work_claims d')
          = map (\<lambda>c. (c_worker_id c, c_date c)) (work_claims d)"
        using br by (auto split: if_splits)
      have inids: "a_claim_id a \<in> set (map c_id (work_claims d))"
        using cl by force
      have 1: "\<forall>x\<in>set (verifications d'). v_is_valid x = 1 \<and> v_claim_id x \<in> set (map c_id (work_claims d'))"
        using inv inids unfolding ids by (auto simp: ledger_inv_def vs)
      have 2: "\<forall>c\<in>set (work_claims d').
         (c_status c = ''verified'' \<and> valid_count d' (c_id c) = 3)
       \<or> (c_status c = ''pending'' \<and> valid_count d' (c_id c) \<le> 2 \<and> c_tx_hash c = None
            \<and> c_ipfs_hash c = None \<and> c_block_number c = None)"
      proof (cases "3 \<le> valid_count d' (a_claim_id a)")
        case True
        with br have wc: "work_claims d' = map (seal_row e (a_claim_id a)) (work_claims d)" by simp
        from True low vc have three: "valid_count d' (a_claim_id a) = 3" by simp
        show ?thesis
        proof
          fix c assume "c \<in> set (work_claims d')"
          then obtain c0 where c0: "c0 \<in> set (work_claims d)" "c = seal_row e (a_claim_id a) c0"
            unfolding wc by auto
          show "(c_status c = ''verified'' \<and> valid_count d' (c_id c) = 3)
             \<or> (c_status c = ''pending'' \<and> valid_count d' (c_id c) \<le> 2 \<and> c_tx_hash c = None
                  \<and> c_ipfs_hash c = None \<and> c_block_number c = None)"
          proof (cases "c_id c0 = a_claim_id a")
            case True
            then show ?thesis using c0 three by (simp add: seal_row_def)
          next
            case False
            then have "c = c0" using c0 by (simp add: seal_row_def)
            moreover have "valid_count d' (c_id c0) = valid_count d (c_id c0)"
              using False vc by simp
            ultimately show ?thesis using inv c0(1) by (auto simp: ledger_inv_def)
          qed
        qed
      next
        case False
        with br have wc: "work_claims d' = work_claims d" by simp
        show ?thesis
        proof
          fix c assume c: "c \<in> set (work_claims d')"
          show "(c_status c = ''verified'' \<and> valid_count d' (c_id c) = 3)
             \<or> (c_status c = ''pending'' \<and> valid_count d' (c_id c) \<le> 2 \<and> c_tx_hash c = None
                  \<and> c_ipfs_hash c = None \<and> c_block_number c = None)"
          proof (cases "c_id c = a_claim_id a")
            case True
            then show ?thesis using pend[of c] c False by (simp add: wc)
          next
            case ne: False
            then have "valid_count d' (c_id c) = valid_count d (c_id c)" using vc by simp
            then show ?thesis using inv c by (auto simp: ledger_inv_def wc)
          qed
        qed
      qed
      have 3: "distinct (map (\<lambda>c. (c_worker_id c, c_date c)) (work_claims d'))"
        using inv unfolding keys by (simp add: ledger_inv_def)
      have 4: "distinct (map c_id (work_claims d'))"
        using inv unfolding ids by (simp add: ledger_inv_def)
      from 1 2 3 4 have "ledger_inv d'" unfolding ledger_inv_def by blast
      with pv show ?thesis by simp
    qed
  qed
qed

lemma reachable_ledger_inv: "reachable d \<Longrightarrow> ledger_inv d"
  by (induction rule: reachable.induct)
     (simp_all add: ledger_inv_empty ledger_inv_register ledger_inv_claims ledger_inv_verify
        ledger_inv_credit)

lemma reaches_reachable: "reaches d d' \<Longrightarrow> reachable d \<Longrightarrow> reachable d'"
  by (induction rule: reaches.induct) (auto intro: reachable.intros)

lemma reachable_reaches: "reachable d \<Longrightarrow> reaches d d' \<Longrightarrow> reachable d'"
  by (rule reaches_reachable)

lemma register_claims [simp]: "work_claims (fst (post_register e d g)) = work_claims d"
  by (simp add: register_tables)

lemma register_verifications [simp]: "verifications (fst (post_register e d g)) = verifications d"
  by (simp add: register_tables)

lemma credit_claims [simp]: "work_claims (fst (post_finance_credit e d auth)) = work_claims d"
  by (simp add: post_finance_credit_def insert_report_def Let_def split: option.splits)

lemma credit_verifications [simp]:
  "verifications (fst (post_finance_credit e d auth)) = verifications d"
  by (simp add: post_finance_credit_def insert_report_def Let_def split: option.splits)

lemma claims_step_shape:
  "work_claims (fst (post_claims e d q)) = work_claims d
   \<or> (\<exists>row. work_claims (fst (post_claims e d q)) = work_claims d @ [row])"
proof -
  obtain d' r where pc: "post_claims e d q = (d', r)" by (cases "post_claims e d q")
  from post_claims_unfold[OF pc] show ?thesis
  proof (elim disjE exE conjE)
    assume "d' = d" with pc show ?thesis by simp
  next
    fix w h t assume "claims_insert e d q w h t = (d', r)"
    from claims_insert_cases[OF this] pc show ?thesis by auto
  qed
qed

lemma claims_step_verifications [simp]:
  "verifications (fst (post_claims e d q)) = verifications d"
proof -
  obtain d' r where pc: "post_claims e d q = (d', r)" by (cases "post_claims e d q")
  from post_claims_unfold[OF pc] show ?thesis
  proof (elim disjE exE conjE)
    assume "d' = d" with pc show ?thesis by simp
  next
    fix w h t assume "claims_insert e d q w h t = (d', r)"
    from claims_insert_cases[OF this] pc show ?thesis by auto
  qed
qed

lemma verify_step_shape:
  "work_claims (fst (post_verify e d a)) = work_claims d
   \<or> work_claims (fst (post_verify e d a)) = map (seal_row e (a_claim_id a)) (work_claims d)"
proof -
  obtain d' r where pv: "post_verify e d a = (d', r)" by (cases "post_verify e d a")
  from post_verify_unfold[OF pv] show ?thesis
  proof (elim disjE exE conjE)
    assume "d' = d" with pv show ?thesis by simp
  next
    fix v claim assume "verify_record e d a v claim = (d', r)"
    from verify_record_cases[OF this] pv show ?thesis by (auto split: if_splits)
  qed
qed

lemma keys_claims: "keys d \<subseteq> keys (fst (post_claims e d q))"
  using claims_step_shape[of e d q] by (auto simp: keys_def)

lemma keys_verify: "keys d \<subseteq> keys (fst (post_verify e d a))"
  using verify_step_shape[of e d a] by (auto simp: keys_def image_image)

lemma reaches_keys: "reaches d d' \<Longrightarrow> keys d \<subseteq> keys d'"
proof (induction rule: reaches.induct)
  case (reaches_refl d)
  show ?case by simp
next
  case (reaches_register d d' e g)
  then show ?case by (simp add: keys_def)
next
  case (reaches_claims d d' e q)
  then show ?case using keys_claims[of d' e q] by blast
next
  case (reaches_verify d d' e a)
  then show ?case using keys_verify[of d' e a] by blast
next
  case (reaches_credit d d' e auth)
  then show ?case by (simp add: keys_def)
qed

lemma distinct_count_le:
  "distinct (map f xs) \<Longrightarrow> length (filter (\<lambda>x. f x = k) xs) \<le> 1"
proof (induction xs)
  case Nil
  show ?case by simp
next
  case (Cons x xs)
  show ?case
  proof (cases "f x = k")
    case True
    from Cons.prems have nin: "f x \<notin> f ` set xs" by simp
    have "filter (\<lambda>y. f y = k) xs = []"
      unfolding filter_empty_conv
    proof
      fix y assume "y \<in> set xs"
      then have "f y \<in> f ` set xs" by simp
      with nin True show "f y \<noteq> k" by auto
    qed
    with True show ?thesis by simp
  next
    case False
    with Cons show ?thesis by simp
  qed
qed

lemma count_ge_one: "k \<in> f ` set xs \<Longrightarrow> 1 \<le> length (filter (\<lambda>x. f x = k) xs)"
  by (induction xs) auto

lemma claims_for_key:
  "claims_for d w dt = filter (\<lambda>c. (c_worker_id c, c_date c) = (w, dt)) (work_claims d)"
  by (simp add: claims_for_def)

lemma claims_for_le_one: "ledger_inv d \<Longrightarrow> length (claims_for d w dt) \<le> 1"
  unfolding claims_for_key by (rule distinct_count_le) (simp add: ledger_inv_def)

lemma claims_for_one:
  assumes "ledger_inv d" "(w, dt) \<in> keys d"
  shows "length (claims_for d w dt) = 1"
proof -
  have "1 \<le> length (claims_for d w dt)"
    unfolding claims_for_key using assms(2) by (intro count_ge_one) (simp add: keys_def)
  with claims_for_le_one[OF assms(1), of w dt] show ?thesis by simp
qed

lemma duplicate_conflict:
  assumes "(w, claim_date e q) \<in> keys d" "q_auth q = Some w"
  shows "is_error_reply (snd (post_claims e d q)) \<and> fst (post_claims e d q) = d"
    and "q_hours q = Some h \<Longrightarrow> q_task q = Some t \<Longrightarrow> h \<noteq> 0 \<Longrightarrow> t \<noteq> [] \<Longrightarrow> h \<le> 16 \<Longrightarrow>
       post_claims e d q = (d, Error 409 ''Claim already submitted for this date'')"
proof -
  from assms(1) obtain c where "c \<in> set (work_claims d)" "c_worker_id c = w"
    "c_date c = claim_date e q" by (auto simp: keys_def)
  then have "find (\<lambda>c. c_worker_id c = w \<and> c_date c = claim_date e q) (work_claims d) \<noteq> None"
    by (auto simp: find_None_set)
  then obtain x where fx: "find (\<lambda>c. c_worker_id c = w \<and> c_date c = claim_date e q) (work_claims d) = Some x"
    by auto
  then have ci: "\<And>h t. claims_insert e d q w h t = (d, Error 409 ''Claim already submitted for this date'')"
    by (simp add: claims_insert_def)
  show "is_error_reply (snd (post_claims e d q)) \<and> fst (post_claims e d q) = d"
    using assms(2) ci by (simp add: post_claims_def split: option.splits)
  show "q_hours q = Some h \<Longrightarrow> q_task q = Some t \<Longrightarrow> h \<noteq> 0 \<Longrightarrow> t \<noteq> [] \<Longrightarrow> h \<le> 16 \<Longrightarrow>
       post_claims e d q = (d, Error 409 ''Claim already submitted for this date'')"
    using assms(2) ci by (simp add: post_claims_def)
qed

lemma submit_adds_key:
  assumes "post_claims e d q = (d', r)" "\<not> is_error r" "q_auth q = Some w"
  shows "(w, claim_date e q) \<in> keys d'"
proof -
  from post_claims_unfold[OF assms(1)] assms(2,3) obtain h t where
    "claims_insert e d q w h t = (d', r)" by auto
  from claims_insert_cases[OF this] assms(2) show ?thesis by (auto simp: keys_def)
qed





lemma post_verify_verified:
  assumes "find (\<lambda>c. c_id c = a_claim_id a) (work_claims d) = Some claim"
    and "c_status claim = ''verified''"
  shows "is_error_reply (snd (post_verify e d a)) \<and> fst (post_verify e d a) = d"
    and "a_auth a = Some v \<Longrightarrow> v \<noteq> c_worker_id claim \<Longrightarrow>
      post_verify e d a = (d, Error 400 ''Claim already fully verified'')"
  using assms by (auto simp: post_verify_def split: option.splits)

section \<open>The concrete ledgers, evaluated\<close>

lemma env_of_simps [simp]:
  "e_id (env_of i) = i" "e_id2 (env_of i) = i @ ''-flag''" "e_tx_hash (env_of i) = ''0x'' @ i"
  "e_ipfs_hash (env_of i) = ''Qm'' @ i" "e_block_number (env_of i) = 48123"
  "e_today (env_of i) = 100" "e_now (env_of i) = 6000"
  "e_wallet_address (env_of i) = ''0xw'' @ i" "e_claim_hash (env_of i) = ''sha-'' @ i"
  by (simp_all add: env_of_def)

lemma submit_req_simps [simp]:
  "q_auth (submit_req w h t dt) = Some w" "q_hours (submit_req w h t dt) = Some h"
  "q_task (submit_req w h t dt) = Some t" "q_date (submit_req w h t dt) = Some dt"
  "q_location_lat (submit_req w h t dt) = None" "q_location_lng (submit_req w h t dt) = None"
  "claim_date e (submit_req w h t dt) = dt"
  by (simp_all add: submit_req_def claim_date_def)

lemma attest_req_simps [simp]:
  "a_auth (attest_req v c) = Some v" "a_claim_id (attest_req v c) = c"
  "a_gps_distance_m (attest_req v c) = Some 20"
  by (simp_all add: attest_req_def)

lemma new_worker_simps [simp]:
  "w_id (new_worker e n l s) = e_id e"
  "w_reputation_score (new_worker e n l s) = 50"
  "w_total_days_worked (new_worker e n l s) = 0"
  "w_verification_depth (new_worker e n l s) = 0"
  "w_wallet_address (new_worker e n l s) = e_wallet_address e"
  by (simp_all add: new_worker_def)

lemma worker_ex_simps [simp]:
  "w_id (worker_ex i) = i" "w_reputation_score (worker_ex i) = 50"
  "w_total_days_worked (worker_ex i) = 0" "w_verification_depth (worker_ex i) = 0"
  "w_wallet_address (worker_ex i) = ''0xw'' @ i"
  by (simp_all add: worker_ex_def env_of_def)

lemma claim_ex_simps [simp]:
  "c_id (claim_ex i w h t dt) = i" "c_worker_id (claim_ex i w h t dt) = w"
  "c_date (claim_ex i w h t dt) = dt" "c_hours (claim_ex i w h t dt) = h"
  "c_status (claim_ex i w h t dt) = ''pending''" "c_tx_hash (claim_ex i w h t dt) = None"
  "c_ipfs_hash (claim_ex i w h t dt) = None" "c_block_number (claim_ex i w h t dt) = None"
  "c_created_at (claim_ex i w h t dt) = 6000"
  by (simp_all add: claim_ex_def new_claim_def)

lemma ver_ex_simps [simp]:
  "v_id (ver_ex i v) = i" "v_claim_id (ver_ex i v) = ''c1''" "v_verifier_id (ver_ex i v) = v"
  "v_is_valid (ver_ex i v) = 1"
  by (simp_all add: ver_ex_def)

lemma db_workers_eq:
  "db_workers = \<lparr>workers = [worker_ex ''A'', worker_ex ''B'', worker_ex ''C'', worker_ex ''D''],
     work_claims = [], verifications = [], anomaly_flags = [], credit_reports = []\<rparr>"
  by (simp add: db_workers_def post_register_def reg_def insert_worker_def empty_db_def
      worker_ex_def)

lemma score_zero:
  "work_claims d = [] \<Longrightarrow> h \<le> 14 \<Longrightarrow> calcAnomalyScore d w h dt = 0"
  by (simp add: calcAnomalyScore_def recent_claims_def sameHours_cnt_def)

lemma step_pending:
  "post_claims (env_of ''c1'') db_workers (submit_req ''A'' 8 ''Tea harvesting'' 100)
     = (db_workers\<lparr>work_claims := [claim_ex ''c1'' ''A'' 8 ''Tea harvesting'' 100]\<rparr>,
        Claim_json ''c1'' 100 8 ''Tea harvesting'' ''pending'' 0)"
  by (simp add: post_claims_def claims_insert_def insert_claim_def Let_def score_zero
      db_workers_eq claim_ex_def)

lemma db_pending_eq:
  "db_pending = db_workers\<lparr>work_claims := [claim_ex ''c1'' ''A'' 8 ''Tea harvesting'' 100]\<rparr>"
  by (simp add: db_pending_def step_pending)

lemma step_one:
  "post_verify (env_of ''v1'') db_pending (attest_req ''B'' ''c1'')
     = (db_pending\<lparr>verifications := [ver_ex ''v1'' ''B''],
          workers := map (bump_depth ''B'') (workers db_pending)\<rparr>, Verify_unsealed ''v1'' 1)"
  by (simp add: post_verify_def verify_record_def insert_verification_def valid_count_def Let_def
      db_pending_eq db_workers_eq ver_ex_def)

lemma db_one_eq:
  "db_one = db_pending\<lparr>verifications := [ver_ex ''v1'' ''B''],
          workers := map (bump_depth ''B'') (workers db_pending)\<rparr>"
  by (simp add: db_one_def step_one)

lemma step_two:
  "post_verify (env_of ''v2'') db_one (attest_req ''C'' ''c1'')
     = (db_one\<lparr>verifications := [ver_ex ''v1'' ''B'', ver_ex ''v2'' ''C''],
          workers := map (bump_depth ''C'') (workers db_one)\<rparr>, Verify_unsealed ''v2'' 2)"
  by (simp add: post_verify_def verify_record_def insert_verification_def valid_count_def Let_def
      db_one_eq db_pending_eq db_workers_eq ver_ex_def)

lemma db_two_eq:
  "db_two = db_one\<lparr>verifications := [ver_ex ''v1'' ''B'', ver_ex ''v2'' ''C''],
          workers := map (bump_depth ''C'') (workers db_one)\<rparr>"
  by (simp add: db_two_def step_two)

lemma step_three:
  "post_verify (env_of ''v3'') db_two (attest_req ''D'' ''c1'')
     = (db_two\<lparr>verifications := [ver_ex ''v1'' ''B'', ver_ex ''v2'' ''C'', ver_ex ''v3'' ''D''],
          work_claims := map (seal_row (env_of ''v3'') ''c1'') (work_claims db_two),
          workers := map (credit_owner ''A'') (map (bump_depth ''D'') (workers db_two))\<rparr>,
        Verify_sealed ''v3'' ''0xv3'' ''Qmv3'')"
  by (simp add: post_verify_def verify_record_def insert_verification_def valid_count_def Let_def
      db_two_eq db_one_eq db_pending_eq db_workers_eq ver_ex_def)

lemma db_sealed_eq:
  "db_sealed = db_two\<lparr>verifications := [ver_ex ''v1'' ''B'', ver_ex ''v2'' ''C'', ver_ex ''v3'' ''D''],
          work_claims := map (seal_row (env_of ''v3'') ''c1'') (work_claims db_two),
          workers := map (credit_owner ''A'') (map (bump_depth ''D'') (workers db_two))\<rparr>"
  by (simp add: db_sealed_def step_three)

lemma reachable_db_workers: "reachable db_workers"
  unfolding db_workers_def by (intro reachable.intros)

lemma reachable_db_pending: "reachable db_pending"
  unfolding db_pending_def by (intro reachable.intros reachable_db_workers)

lemma reaches_db_sealed: "reaches db_pending db_sealed"
  unfolding db_sealed_def db_two_def db_one_def by (intro reaches.intros)

lemma step_pending_db:
  "post_claims (env_of ''c1'') db_workers (submit_req ''A'' 8 ''Tea harvesting'' 100)
     = (db_pending, Claim_json ''c1'' 100 8 ''Tea harvesting'' ''pending'' 0)"
  by (simp add: step_pending db_pending_eq)

lemma step_one_db:
  "post_verify (env_of ''v1'') db_pending (attest_req ''B'' ''c1'') = (db_one, Verify_unsealed ''v1'' 1)"
  by (simp add: step_one db_one_eq)

lemma step_three_db:
  "post_verify (env_of ''v3'') db_two (attest_req ''D'' ''c1'')
     = (db_sealed, Verify_sealed ''v3'' ''0xv3'' ''Qmv3'')"
  by (simp add: step_three db_sealed_eq)

lemma db_pending_workers:
  "workers db_pending = [worker_ex ''A'', worker_ex ''B'', worker_ex ''C'', worker_ex ''D'']"
  by (simp add: db_pending_eq db_workers_eq)

lemma db_one_workers:
  "workers db_one = map (bump_depth ''B'') [worker_ex ''A'', worker_ex ''B'', worker_ex ''C'', worker_ex ''D'']"
  by (simp add: db_one_eq db_pending_workers)

lemma db_sealed_count: "valid_count db_sealed ''c1'' = 3"
  by (simp add: valid_count_def db_sealed_eq)

lemma db_two_workers: "workers db_two = map (bump_depth ''C'') (map (bump_depth ''B'')
    [worker_ex ''A'', worker_ex ''B'', worker_ex ''C'', worker_ex ''D''])"
  by (simp add: db_two_eq db_one_eq db_pending_eq db_workers_eq)

lemma db_two_claims: "work_claims db_two = [claim_ex ''c1'' ''A'' 8 ''Tea harvesting'' 100]"
  by (simp add: db_two_eq db_one_eq db_pending_eq)

lemma db_one_count: "valid_count db_one ''c1'' = 1"
  by (simp add: valid_count_def db_one_eq)

lemma db_one_claims: "work_claims db_one = [claim_ex ''c1'' ''A'' 8 ''Tea harvesting'' 100]"
  by (simp add: db_one_eq db_pending_eq)

lemma reachable_db_sealed: "reachable db_sealed"
  using reachable_db_pending reaches_db_sealed by (rule reachable_reaches)



section \<open>The concrete contract storage, evaluated\<close>

lemmas chain_defs = chain_registered_def chain_submitted_def chain_sealed_def chain_resubmitted_def
  chain_resealed_def chain_two_def chain_rich_def chain_rejected_def run_def after_def registerWorker_def
  submitClaim_def verifyClaim_def sealClaim_def deployed_def tx_of_def claim_1_def pack_def
  uint256_max_def zero_Worker_def zero_WorkClaim_def Let_def
  REQUIRED_VERIFIERS_def MAX_DAILY_HOURS_def REP_GAIN_VERIFY_def BASE_REP_def





section \<open>The backend keeps a sealed claim frozen\<close>

lemma seal_row_other: "c_id c \<noteq> x \<Longrightarrow> seal_row e x c = c"
  by (simp add: seal_row_def)

lemma all_valid_count:
  assumes "ledger_inv d"
  shows "length (attestations d x) = valid_count d x"
proof -
  have "filter (\<lambda>v. v_claim_id v = x) (verifications d)
      = filter (\<lambda>v. v_claim_id v = x \<and> v_is_valid v = 1) (verifications d)"
    using assms by (intro filter_cong) (auto simp: ledger_inv_def)
  then show ?thesis by (simp add: attestations_def valid_count_def)
qed

lemma verified_rows:
  assumes "ledger_inv d" and "c \<in> set (work_claims d)" and "c_status c = ''verified''"
    and "c' \<in> set (work_claims d)" and "c_id c' = c_id c"
  shows "c_status c' = ''verified''"
proof -
  from assms(1-3) have "valid_count d (c_id c) = 3" by (auto simp: ledger_inv_def)
  with assms(1,4,5) show ?thesis by (auto simp: ledger_inv_def)
qed

lemma attest_verified_fails:
  assumes "ledger_inv d" and "c \<in> set (work_claims d)" and "c_status c = ''verified''"
    and "a_claim_id a = c_id c"
  shows "is_error_reply (snd (post_verify e d a)) \<and> fst (post_verify e d a) = d"
proof -
  have "find (\<lambda>x. c_id x = a_claim_id a) (work_claims d) \<noteq> None"
    using assms(2,4) by (auto simp: find_None_set)
  then obtain c' where f: "find (\<lambda>x. c_id x = a_claim_id a) (work_claims d) = Some c'" by auto
  from find_Some_set[OF f] assms(4) have "c' \<in> set (work_claims d)" "c_id c' = c_id c" by simp_all
  with verified_rows[OF assms(1-3)] have "c_status c' = ''verified''" by simp
  with post_verify_verified(1)[OF f] show ?thesis by simp
qed

lemma verify_record_tables:
  assumes "verify_record e d a v claim = (d', r)"
  shows "d' = d
       \<or> (verifications d' = verifications d @ [new_verification e a v]
          \<and> (work_claims d' = map (seal_row e (a_claim_id a)) (work_claims d)
               \<or> work_claims d' = work_claims d))"
proof (cases "insert_verification d (new_verification e a v)")
  case None
  with assms have "d' = d" by (simp add: verify_record_def)
  then show ?thesis ..
next
  case (Some d1)
  then have d1: "d1 = d\<lparr>verifications := verifications d @ [new_verification e a v]\<rparr>"
    by (simp add: insert_verification_def split: if_splits)
  define d2 where "d2 = d1\<lparr>workers := map (bump_depth v) (workers d1)\<rparr>"
  show ?thesis
  proof (cases "valid_count d2 (a_claim_id a) \<ge> 3")
    case True
    with assms Some have "d' = d2\<lparr>work_claims := map (seal_row e (a_claim_id a)) (work_claims d2),
        workers := map (credit_owner (c_worker_id claim)) (workers d2)\<rparr>"
      by (simp add: verify_record_def Let_def d2_def)
    then have "verifications d' = verifications d @ [new_verification e a v]"
      "work_claims d' = map (seal_row e (a_claim_id a)) (work_claims d)"
      by (simp_all add: d2_def d1)
    then show ?thesis by simp
  next
    case False
    with assms Some have "d' = d2" by (simp add: verify_record_def Let_def d2_def)
    then have "verifications d' = verifications d @ [new_verification e a v]"
      "work_claims d' = work_claims d"
      by (simp_all add: d2_def d1)
    then show ?thesis by simp
  qed
qed

lemma verify_keeps_sealed:
  assumes "ledger_inv d" and "c \<in> set (work_claims d)" and "c_status c = ''verified''"
  shows "c \<in> set (work_claims (fst (post_verify e d a)))
       \<and> attestations (fst (post_verify e d a)) (c_id c) = attestations d (c_id c)"
proof (cases "a_claim_id a = c_id c")
  case True
  with attest_verified_fails[OF assms, of a e] assms(2) show ?thesis by simp
next
  case False
  obtain d' r where pv: "post_verify e d a = (d', r)" by (cases "post_verify e d a")
  have sealc: "seal_row e (a_claim_id a) c = c" using False by (simp add: seal_row_other)
  have inmap: "c \<in> set (map (seal_row e (a_claim_id a)) (work_claims d))"
  proof -
    have "seal_row e (a_claim_id a) c \<in> seal_row e (a_claim_id a) ` set (work_claims d)"
      using assms(2) by (rule imageI)
    then show ?thesis by (simp add: sealc)
  qed
  have "d' = d
       \<or> (\<exists>v. verifications d' = verifications d @ [new_verification e a v]
          \<and> (work_claims d' = map (seal_row e (a_claim_id a)) (work_claims d)
               \<or> work_claims d' = work_claims d))"
  proof -
    from post_verify_unfold[OF pv] show ?thesis
    proof (elim disjE exE conjE)
      assume "d' = d" then show ?thesis ..
    next
      fix v claim assume "verify_record e d a v claim = (d', r)"
      from verify_record_tables[OF this] show ?thesis
      proof
        assume "d' = d" then show ?thesis ..
      next
        assume "verifications d' = verifications d @ [new_verification e a v]
          \<and> (work_claims d' = map (seal_row e (a_claim_id a)) (work_claims d)
               \<or> work_claims d' = work_claims d)"
        then show ?thesis by (intro disjI2 exI[of _ v])
      qed
    qed
  qed
  then show ?thesis
  proof
    assume "d' = d"
    with pv assms(2) show ?thesis by simp
  next
    assume "\<exists>v. verifications d' = verifications d @ [new_verification e a v]
          \<and> (work_claims d' = map (seal_row e (a_claim_id a)) (work_claims d)
               \<or> work_claims d' = work_claims d)"
    then obtain v where vs: "verifications d' = verifications d @ [new_verification e a v]"
      and wc: "work_claims d' = map (seal_row e (a_claim_id a)) (work_claims d)
               \<or> work_claims d' = work_claims d"
      by (elim exE conjE)
    from wc have "c \<in> set (work_claims d')"
    proof
      assume "work_claims d' = map (seal_row e (a_claim_id a)) (work_claims d)"
      with inmap show ?thesis by simp
    next
      assume "work_claims d' = work_claims d"
      with assms(2) show ?thesis by simp
    qed
    moreover have "attestations d' (c_id c) = attestations d (c_id c)"
      using vs False by (simp add: attestations_def)
    ultimately show ?thesis using pv by simp
  qed
qed

lemma claims_keeps_sealed:
  assumes "c \<in> set (work_claims d)"
  shows "c \<in> set (work_claims (fst (post_claims e d q)))
       \<and> attestations (fst (post_claims e d q)) (c_id c) = attestations d (c_id c)"
proof -
  have "attestations (fst (post_claims e d q)) (c_id c) = attestations d (c_id c)"
    by (simp add: attestations_def)
  moreover have "c \<in> set (work_claims (fst (post_claims e d q)))"
    using claims_step_shape[of e d q] assms by (elim disjE exE) simp_all
  ultimately show ?thesis by simp
qed

lemma reaches_keeps_sealed:
  assumes "reaches d d'" and "reachable d" and "c \<in> set (work_claims d)"
    and "c_status c = ''verified''"
  shows "c \<in> set (work_claims d') \<and> attestations d' (c_id c) = attestations d (c_id c)"
  using assms
proof (induction rule: reaches.induct)
  case (reaches_refl d)
  then show ?case by simp
next
  case (reaches_register d d' e g)
  then show ?case by (simp add: attestations_def)
next
  case (reaches_claims d d' e q)
  then have "c \<in> set (work_claims d')" "attestations d' (c_id c) = attestations d (c_id c)"
    by simp_all
  with claims_keeps_sealed[of c d' e q] show ?case by simp
next
  case (reaches_verify d d' e a)
  then have ih: "c \<in> set (work_claims d')" "attestations d' (c_id c) = attestations d (c_id c)"
    by simp_all
  have "ledger_inv d'"
    by (rule reachable_ledger_inv, rule reachable_reaches[OF reaches_verify.prems(1) reaches_verify.hyps])
  from verify_keeps_sealed[OF this ih(1) reaches_verify.prems(3), of e a] ih(2) show ?case by simp
next
  case (reaches_credit d d' e auth)
  then show ?case by (simp add: attestations_def)
qed

text \<open>
  In the backend a sealed claim is frozen at the quorum: in every ledger it can reach, a
  claim with the status \<open>verified\<close> has exactly three recorded attestations; in every
  ledger reached from there the claim's row and its attestations are the same, and every
  attest call on it is refused and changes nothing.
\<close>

lemma backend_sealed_frozen:
  assumes "reachable d" and "c \<in> set (work_claims d)" and "c_status c = ''verified''"
    and "reaches d d'"
  shows "length (attestations d (c_id c)) = 3
       \<and> c \<in> set (work_claims d')
       \<and> attestations d' (c_id c) = attestations d (c_id c)
       \<and> (\<forall>e a. a_claim_id a = c_id c \<longrightarrow>
             is_error_reply (snd (post_verify e d' a)) \<and> fst (post_verify e d' a) = d')"
proof -
  have inv: "ledger_inv d" using assms(1) by (rule reachable_ledger_inv)
  have inv': "ledger_inv d'"
    by (rule reachable_ledger_inv, rule reachable_reaches[OF assms(1,4)])
  have "valid_count d (c_id c) = 3" using inv assms(2,3) by (auto simp: ledger_inv_def)
  then have three: "length (attestations d (c_id c)) = 3" using all_valid_count[OF inv] by simp
  note keep = reaches_keeps_sealed[OF assms(4,1,2,3)]
  have "\<forall>e a. a_claim_id a = c_id c \<longrightarrow>
             is_error_reply (snd (post_verify e d' a)) \<and> fst (post_verify e d' a) = d'"
    using attest_verified_fails[OF inv' _ assms(3)] keep by blast
  with three keep show ?thesis by blast
qed

section \<open>C1: quorum exactness\<close>

text \<open>
  Claim C1, as amended. In every ledger the backend can reach, a claim has the status
  \<open>verified\<close> if and only if it has at least 3 valid attestations. After a successful
  attest call that leaves the claim with 2 or fewer valid attestations, the call has
  answered \<open>claim_sealed: false\<close> with that count, the claims table is unchanged, so the
  claim's status is still \<open>pending\<close> (the backend has no partially-verified status), and
  the claim carries no settlement record.
\<close>

theorem quorum_exactness:
  assumes "reachable d"
  shows "(\<forall>c\<in>set (work_claims d). (c_status c = ''verified'') = (3 \<le> valid_count d (c_id c)))
    \<and> (\<forall>e a d' r. post_verify e d a = (d', r) \<and> \<not> is_error r
            \<and> valid_count d' (a_claim_id a) \<le> 2 \<longrightarrow>
          r = Verify_unsealed (e_id e) (valid_count d' (a_claim_id a))
          \<and> work_claims d' = work_claims d
          \<and> (\<exists>c\<in>set (work_claims d'). c_id c = a_claim_id a)
          \<and> (\<forall>c\<in>set (work_claims d'). c_id c = a_claim_id a \<longrightarrow>
                c_status c = ''pending'' \<and> c_tx_hash c = None \<and> c_ipfs_hash c = None
                \<and> c_block_number c = None))"
proof -
  have inv: "ledger_inv d" using assms by (rule reachable_ledger_inv)
  have iff: "\<forall>c\<in>set (work_claims d). (c_status c = ''verified'') = (3 \<le> valid_count d (c_id c))"
  proof
    fix c assume "c \<in> set (work_claims d)"
    with inv have "(c_status c = ''verified'' \<and> valid_count d (c_id c) = 3)
       \<or> (c_status c = ''pending'' \<and> valid_count d (c_id c) \<le> 2)"
      by (auto simp: ledger_inv_def)
    then show "(c_status c = ''verified'') = (3 \<le> valid_count d (c_id c))" by auto
  qed
  have below: "\<forall>e a d' r. post_verify e d a = (d', r) \<and> \<not> is_error r
            \<and> valid_count d' (a_claim_id a) \<le> 2 \<longrightarrow>
          r = Verify_unsealed (e_id e) (valid_count d' (a_claim_id a))
          \<and> work_claims d' = work_claims d
          \<and> (\<exists>c\<in>set (work_claims d'). c_id c = a_claim_id a)
          \<and> (\<forall>c\<in>set (work_claims d'). c_id c = a_claim_id a \<longrightarrow>
                c_status c = ''pending'' \<and> c_tx_hash c = None \<and> c_ipfs_hash c = None
                \<and> c_block_number c = None)"
  proof (intro allI impI, elim conjE)
    fix e a d' r
    assume pv: "post_verify e d a = (d', r)" and ok: "\<not> is_error r"
      and le: "valid_count d' (a_claim_id a) \<le> 2"
    from post_verify_unfold[OF pv] ok obtain v claim where
      found: "find (\<lambda>c. c_id c = a_claim_id a) (work_claims d) = Some claim"
      and notver: "c_status claim \<noteq> ''verified''"
      and vr: "verify_record e d a v claim = (d', r)"
      by auto
    from verify_record_cases[OF vr] ok le have
      wc: "work_claims d' = work_claims d"
      and r: "r = Verify_unsealed (e_id e) (valid_count d' (a_claim_id a))"
      by auto
    have cl: "claim \<in> set (work_claims d)" "c_id claim = a_claim_id a"
      using find_Some_set[OF found] by simp_all
    have low: "valid_count d (a_claim_id a) \<le> 2"
      using inv cl notver by (auto simp: ledger_inv_def)
    have pend: "\<forall>c\<in>set (work_claims d). c_id c = a_claim_id a \<longrightarrow>
          c_status c = ''pending'' \<and> c_tx_hash c = None \<and> c_ipfs_hash c = None \<and> c_block_number c = None"
      using inv low by (auto simp: ledger_inv_def)
    have ex: "\<exists>c\<in>set (work_claims d). c_id c = a_claim_id a" using cl by blast
    show "r = Verify_unsealed (e_id e) (valid_count d' (a_claim_id a))
          \<and> work_claims d' = work_claims d
          \<and> (\<exists>c\<in>set (work_claims d'). c_id c = a_claim_id a)
          \<and> (\<forall>c\<in>set (work_claims d'). c_id c = a_claim_id a \<longrightarrow>
                c_status c = ''pending'' \<and> c_tx_hash c = None \<and> c_ipfs_hash c = None
                \<and> c_block_number c = None)"
      using r wc ex pend by simp
  qed
  from iff below show ?thesis by blast
qed

theorem quorum_exactness_witness:
  "reachable db_pending \<and> reachable db_sealed
   \<and> post_verify (env_of ''v1'') db_pending (attest_req ''B'' ''c1'') = (db_one, Verify_unsealed ''v1'' 1)
   \<and> valid_count db_one ''c1'' = 1
   \<and> map c_status (work_claims db_one) = [''pending'']
   \<and> map c_tx_hash (work_claims db_one) = [None]
   \<and> map c_status (work_claims db_sealed) = [''verified'']
   \<and> valid_count db_sealed ''c1'' = 3"
proof -
  have s: "post_verify (env_of ''v1'') db_pending (attest_req ''B'' ''c1'') = (db_one, Verify_unsealed ''v1'' 1)"
    by (simp add: step_one db_one_eq)
  note q1 = quorum_exactness[OF reachable_db_pending]
  note q2 = quorum_exactness[OF reachable_db_sealed]
  have "map c_status (work_claims db_one) = [''pending'']" "map c_tx_hash (work_claims db_one) = [None]"
    by (simp_all add: db_one_claims)
  moreover have "map c_status (work_claims db_sealed) = [''verified'']"
    by (simp add: db_sealed_eq db_two_claims seal_row_def)
  ultimately show ?thesis
    using q1 q2 s reachable_db_pending reachable_db_sealed
    by (simp add: db_one_count db_sealed_count)
qed

text \<open>
  Claim C1 as stated fails at the first attestation of a pending claim: the call answers
  \<open>claim_sealed: false\<close> with count 1, and the claim's status is \<open>pending\<close>, not
  \<open>PartiallyVerified\<close>.
\<close>

theorem quorum_exactness_counterexample:
  "post_verify (env_of ''v1'') db_pending (attest_req ''B'' ''c1'') = (db_one, Verify_unsealed ''v1'' 1)
   \<and> valid_count db_one ''c1'' = 1
   \<and> map (\<lambda>c. status_of (c_status c)) (work_claims db_one) = [Some Pending]
   \<and> \<not> (\<exists>c\<in>set (work_claims db_one). status_of (c_status c) = Some PartiallyVerified)"
  by (simp add: step_one db_one_eq[symmetric] db_one_count db_one_claims status_of_def)

section \<open>C2: what sealing does\<close>

text \<open>
  Claim C2. When an attest call succeeds and leaves the claim with three or more valid
  attestations, it answers \<open>claim_sealed: true\<close> with the settlement (transaction hash and
  content hash); every row of the claim has the status \<open>verified\<close> and carries the
  settlement record (transaction hash, content hash, block number); and every row of the
  claim's owner in \<open>workers\<close> has \<open>total_days_worked\<close> raised by exactly 1 and
  \<open>reputation_score\<close> raised by exactly 0.5, capped at 100.
\<close>

theorem sealing_effects:
  assumes "post_verify e d a = (d', r)" and "\<not> is_error r"
    and "3 \<le> valid_count d' (a_claim_id a)"
  shows "r = Verify_sealed (e_id e) (e_tx_hash e) (e_ipfs_hash e)
     \<and> (\<exists>claim. find (\<lambda>c. c_id c = a_claim_id a) (work_claims d) = Some claim
         \<and> (\<exists>c\<in>set (work_claims d'). c_id c = a_claim_id a)
         \<and> (\<forall>c\<in>set (work_claims d'). c_id c = a_claim_id a \<longrightarrow>
               c_status c = ''verified'' \<and> c_tx_hash c = Some (e_tx_hash e)
               \<and> c_ipfs_hash c = Some (e_ipfs_hash e)
               \<and> c_block_number c = Some (e_block_number e))
         \<and> length (workers d') = length (workers d)
         \<and> (\<forall>i<length (workers d). w_id (workers d ! i) = c_worker_id claim \<longrightarrow>
               w_id (workers d' ! i) = c_worker_id claim
               \<and> w_total_days_worked (workers d' ! i) = w_total_days_worked (workers d ! i) + 1
               \<and> w_reputation_score (workers d' ! i)
                   = min 100 (w_reputation_score (workers d ! i) + 0.5)))"
proof -
  from post_verify_unfold[OF assms(1)] assms(2) obtain v claim where
    found: "find (\<lambda>c. c_id c = a_claim_id a) (work_claims d) = Some claim"
    and other: "c_worker_id claim \<noteq> v"
    and vr: "verify_record e d a v claim = (d', r)"
    by auto
  from verify_record_cases[OF vr] assms(2,3) have
    wc: "work_claims d' = map (seal_row e (a_claim_id a)) (work_claims d)"
    and ws: "workers d' = map (credit_owner (c_worker_id claim)) (map (bump_depth v) (workers d))"
    and r: "r = Verify_sealed (e_id e) (e_tx_hash e) (e_ipfs_hash e)"
    by auto
  have cl: "claim \<in> set (work_claims d)" "c_id claim = a_claim_id a"
    using find_Some_set[OF found] by simp_all
  have ex: "\<exists>c\<in>set (work_claims d'). c_id c = a_claim_id a"
    unfolding wc using cl by (intro bexI[of _ "seal_row e (a_claim_id a) claim"]) simp_all
  have rows: "\<forall>c\<in>set (work_claims d'). c_id c = a_claim_id a \<longrightarrow>
               c_status c = ''verified'' \<and> c_tx_hash c = Some (e_tx_hash e)
               \<and> c_ipfs_hash c = Some (e_ipfs_hash e)
               \<and> c_block_number c = Some (e_block_number e)"
    unfolding wc by (auto simp: seal_row_def)
  have len: "length (workers d') = length (workers d)" by (simp add: ws)
  have own: "\<forall>i<length (workers d). w_id (workers d ! i) = c_worker_id claim \<longrightarrow>
               w_id (workers d' ! i) = c_worker_id claim
               \<and> w_total_days_worked (workers d' ! i) = w_total_days_worked (workers d ! i) + 1
               \<and> w_reputation_score (workers d' ! i)
                   = min 100 (w_reputation_score (workers d ! i) + 0.5)"
    using other by (simp add: ws credit_owner_def bump_depth_def)
  from r found ex rows len own show ?thesis by blast
qed

theorem sealing_effects_witness:
  "post_verify (env_of ''v3'') db_two (attest_req ''D'' ''c1'')
     = (db_sealed, Verify_sealed ''v3'' ''0xv3'' ''Qmv3'')
   \<and> \<not> is_error (Verify_sealed ''v3'' ''0xv3'' ''Qmv3'')
   \<and> 3 \<le> valid_count db_sealed ''c1''
   \<and> map c_status (work_claims db_sealed) = [''verified'']
   \<and> map c_tx_hash (work_claims db_sealed) = [Some ''0xv3'']
   \<and> w_id (workers db_two ! 0) = ''A''
   \<and> w_total_days_worked (workers db_two ! 0) = 0
   \<and> w_total_days_worked (workers db_sealed ! 0) = 1
   \<and> w_reputation_score (workers db_two ! 0) = 50
   \<and> w_reputation_score (workers db_sealed ! 0) = 50.5"
proof -
  have s: "post_verify (env_of ''v3'') db_two (attest_req ''D'' ''c1'')
     = (db_sealed, Verify_sealed ''v3'' ''0xv3'' ''Qmv3'')"
    by (simp add: step_three db_sealed_eq)
  have c: "3 \<le> valid_count db_sealed (a_claim_id (attest_req ''D'' ''c1''))"
    by (simp add: db_sealed_count)
  have w0: "w_id (workers db_two ! 0) = ''A''" "w_total_days_worked (workers db_two ! 0) = 0"
    "w_reputation_score (workers db_two ! 0) = 50"
    by (simp_all add: db_two_workers bump_depth_def)
  have f: "find (\<lambda>c. c_id c = ''c1'') (work_claims db_two) = Some (claim_ex ''c1'' ''A'' 8 ''Tea harvesting'' 100)"
    by (simp add: db_two_claims)
  from sealing_effects[OF s _ c] f w0 have
    "w_total_days_worked (workers db_sealed ! 0) = 1
     \<and> w_reputation_score (workers db_sealed ! 0) = 50.5"
    by (auto simp: db_two_workers)
  moreover have "map c_status (work_claims db_sealed) = [''verified'']"
    "map c_tx_hash (work_claims db_sealed) = [Some ''0xv3'']"
    by (simp_all add: db_sealed_eq db_two_claims seal_row_def)
  ultimately show ?thesis using s c w0 by (simp add: db_sealed_count)
qed

section \<open>C3: one claim per participant and date\<close>

text \<open>
  Claim C3. Take any reachable ledger and a submit on it that succeeds for participant
  \<open>w\<close> and a date. In every ledger reached from the result by any further calls, the
  ledger holds exactly one claim for that participant and date (and at most one for every
  participant and date); every further submit of that participant for that date fails,
  leaves the ledger as it is, still with exactly one claim for the key, and is answered
  with the conflict 409 \<open>Claim already submitted for this date\<close> whenever its fields pass
  the validation that precedes the duplicate check.
\<close>

theorem one_claim_per_participant_and_date:
  assumes "reachable d" and "post_claims e d q = (d1, r)" and "\<not> is_error r"
    and "q_auth q = Some w" and "reaches d1 d2"
  shows "length (claims_for d2 w (claim_date e q)) = 1
     \<and> (\<forall>w' dt'. length (claims_for d2 w' dt') \<le> 1)
     \<and> (\<forall>e' q'. q_auth q' = Some w \<and> claim_date e' q' = claim_date e q \<longrightarrow>
          is_error_reply (snd (post_claims e' d2 q')) \<and> fst (post_claims e' d2 q') = d2
          \<and> length (claims_for (fst (post_claims e' d2 q')) w (claim_date e q)) = 1
          \<and> (\<forall>h t. q_hours q' = Some h \<and> q_task q' = Some t \<and> h \<noteq> 0 \<and> t \<noteq> [] \<and> h \<le> 16 \<longrightarrow>
                snd (post_claims e' d2 q') = Error 409 ''Claim already submitted for this date''))"
proof -
  have "reachable d1" using assms(1,2) reachable_claims[of d e q] by simp
  then have "reachable d2" using assms(5) by (rule reachable_reaches)
  then have inv: "ledger_inv d2" by (rule reachable_ledger_inv)
  have "(w, claim_date e q) \<in> keys d1" using assms(2,3,4) by (rule submit_adds_key)
  then have key: "(w, claim_date e q) \<in> keys d2" using reaches_keys[OF assms(5)] by blast
  have one: "length (claims_for d2 w (claim_date e q)) = 1" using inv key by (rule claims_for_one)
  have le: "\<forall>w' dt'. length (claims_for d2 w' dt') \<le> 1" using claims_for_le_one[OF inv] by blast
  have dup: "\<forall>e' q'. q_auth q' = Some w \<and> claim_date e' q' = claim_date e q \<longrightarrow>
          is_error_reply (snd (post_claims e' d2 q')) \<and> fst (post_claims e' d2 q') = d2
          \<and> length (claims_for (fst (post_claims e' d2 q')) w (claim_date e q)) = 1
          \<and> (\<forall>h t. q_hours q' = Some h \<and> q_task q' = Some t \<and> h \<noteq> 0 \<and> t \<noteq> [] \<and> h \<le> 16 \<longrightarrow>
                snd (post_claims e' d2 q') = Error 409 ''Claim already submitted for this date'')"
  proof (intro allI impI)
    fix e' q' assume a: "q_auth q' = Some w \<and> claim_date e' q' = claim_date e q"
    then have k: "(w, claim_date e' q') \<in> keys d2" using key by simp
    from a have au: "q_auth q' = Some w" by simp
    note dc = duplicate_conflict[OF k au]
    show "is_error_reply (snd (post_claims e' d2 q')) \<and> fst (post_claims e' d2 q') = d2
          \<and> length (claims_for (fst (post_claims e' d2 q')) w (claim_date e q)) = 1
          \<and> (\<forall>h t. q_hours q' = Some h \<and> q_task q' = Some t \<and> h \<noteq> 0 \<and> t \<noteq> [] \<and> h \<le> 16 \<longrightarrow>
                snd (post_claims e' d2 q') = Error 409 ''Claim already submitted for this date'')"
      using dc(1) dc(2) one by simp
  qed
  from one le dup show ?thesis by blast
qed

lemma ex_duplicate:
  "post_claims (env_of ''c2'') db_sealed (submit_req ''A'' 6 ''Another claim'' 100)
     = (db_sealed, Error 409 ''Claim already submitted for this date'')"
  by (simp add: post_claims_def claims_insert_def db_sealed_eq db_two_eq db_one_eq db_pending_eq
      seal_row_def)

theorem one_claim_per_participant_and_date_witness:
  "reachable db_workers
   \<and> post_claims (env_of ''c1'') db_workers (submit_req ''A'' 8 ''Tea harvesting'' 100)
       = (db_pending, Claim_json ''c1'' 100 8 ''Tea harvesting'' ''pending'' 0)
   \<and> reaches db_pending db_sealed
   \<and> length (claims_for db_sealed ''A'' 100) = 1
   \<and> post_claims (env_of ''c2'') db_sealed (submit_req ''A'' 6 ''Another claim'' 100)
       = (db_sealed, Error 409 ''Claim already submitted for this date'')"
proof -
  have s: "post_claims (env_of ''c1'') db_workers (submit_req ''A'' 8 ''Tea harvesting'' 100)
       = (db_pending, Claim_json ''c1'' 100 8 ''Tea harvesting'' ''pending'' 0)"
    by (simp add: step_pending db_pending_eq)
  have "length (claims_for db_sealed ''A'' (claim_date (env_of ''c1'') (submit_req ''A'' 8 ''Tea harvesting'' 100))) = 1"
    using one_claim_per_participant_and_date[OF reachable_db_workers s _ _ reaches_db_sealed, of "''A''"]
    by simp
  then show ?thesis using s reachable_db_workers reaches_db_sealed ex_duplicate by simp
qed

section \<open>C4: attesting a terminal claim\<close>








section \<open>C5: validation of the hours on submit\<close>








section \<open>C6: the verifier's reward\<close>

lemma sealClaim_reputation:
  assumes "sealClaim k tx s i = Inr s'" and "wc_worker (claims_m s i) \<noteq> a"
  shows "wk_reputationScore (workers_m s' a) = wk_reputationScore (workers_m s a)"
  using assms by (auto simp: sealClaim_def Let_def split: if_splits)

lemma sealClaim_claim:
  assumes "sealClaim k tx s i = Inr s'"
  shows "wc_status (claims_m s' i) = Verified \<and> wc_verifiers (claims_m s' i) = wc_verifiers (claims_m s i)"
  using assms by (auto simp: sealClaim_def Let_def split: if_splits)

text \<open>
  Claim C6, as amended. In the contract, every \<open>verifyClaim\<close> that succeeds raises the
  caller's reputation by exactly 50 (0.50 on the contract's scale of hundredths), with no
  upper clamp, whether the call seals the claim (status \<open>Verified\<close>) or not (status
  \<open>PartiallyVerified\<close>); the caller is appended to the claim's verifiers.
\<close>

theorem verifier_reward:
  assumes "verifyClaim k tx s i = Inr s'"
  shows "wk_reputationScore (workers_m s' (msg_sender tx))
           = wk_reputationScore (workers_m s (msg_sender tx)) + 50
       \<and> wc_verifiers (claims_m s' i) = wc_verifiers (claims_m s i) @ [msg_sender tx]
       \<and> (if length (wc_verifiers (claims_m s' i)) \<ge> 3 then wc_status (claims_m s' i) = Verified
           else wc_status (claims_m s' i) = PartiallyVerified)"
proof -
  define sender where "sender = msg_sender tx"
  define claim where "claim = claims_m s i"
  define s1 where "s1 = s\<lparr>hasVerified := (hasVerified s)(i := (hasVerified s i)(sender := True)),
                    claims_m := (claims_m s)(i := claim\<lparr>wc_verifiers := wc_verifiers claim @ [sender]\<rparr>)\<rparr>"
  define s2 where "s2 = s1\<lparr>workers_m := (workers_m s1)(sender :=
      (workers_m s1 sender)\<lparr>wk_reputationScore := wk_reputationScore (workers_m s1 sender) + REP_GAIN_VERIFY\<rparr>)\<rparr>"
  from assms have other: "wc_worker claim \<noteq> sender"
    by (auto simp: verifyClaim_def Let_def sender_def claim_def split: if_splits)
  from assms have step: "(if length (wc_verifiers (claims_m s2 i)) \<ge> REQUIRED_VERIFIERS
      then sealClaim k tx s2 i
      else Inr (s2\<lparr>claims_m := (claims_m s2)(i := (claims_m s2 i)\<lparr>wc_status := PartiallyVerified\<rparr>)\<rparr>)) = Inr s'"
    by (simp add: verifyClaim_def Let_def sender_def[symmetric] claim_def[symmetric]
        s1_def[symmetric] s2_def[symmetric] split: if_splits)
  have rep2: "wk_reputationScore (workers_m s2 sender) = wk_reputationScore (workers_m s sender) + 50"
    by (simp add: s2_def s1_def REP_GAIN_VERIFY_def)
  have ver2: "wc_verifiers (claims_m s2 i) = wc_verifiers claim @ [sender]"
    and own2: "wc_worker (claims_m s2 i) = wc_worker claim"
    by (simp_all add: s2_def s1_def)
  show ?thesis
  proof (cases "length (wc_verifiers (claims_m s2 i)) \<ge> REQUIRED_VERIFIERS")
    case True
    with step have sc: "sealClaim k tx s2 i = Inr s'" by simp
    from sealClaim_reputation[OF sc, of sender] other own2 rep2
    have "wk_reputationScore (workers_m s' sender) = wk_reputationScore (workers_m s sender) + 50"
      by simp
    moreover from sealClaim_claim[OF sc] ver2
    have "wc_status (claims_m s' i) = Verified" "wc_verifiers (claims_m s' i) = wc_verifiers claim @ [sender]"
      by simp_all
    ultimately show ?thesis using True ver2
      by (simp add: sender_def claim_def REQUIRED_VERIFIERS_def)
  next
    case False
    with step have "s' = s2\<lparr>claims_m := (claims_m s2)(i := (claims_m s2 i)\<lparr>wc_status := PartiallyVerified\<rparr>)\<rparr>"
      by simp
    then show ?thesis using False rep2 ver2
      by (simp add: sender_def claim_def REQUIRED_VERIFIERS_def)
  qed
qed

lemma chain_first_verification:
  "wk_reputationScore (workers_m chain_submitted 2) = 5000"
  "wk_reputationScore (workers_m (after chain_submitted (verifyClaim pack (tx_of 2) chain_submitted claim_1)) 2) = 5050"
  "wc_status (claims_m (after chain_submitted (verifyClaim pack (tx_of 2) chain_submitted claim_1)) claim_1)
     = PartiallyVerified"
  by (simp_all add: chain_defs)

lemma chain_third_verification:
  "wk_reputationScore (workers_m chain_two 4) = 5000"
  "wk_reputationScore (workers_m (after chain_two (verifyClaim pack (tx_of 4) chain_two claim_1)) 4) = 5050"
  "wc_status (claims_m (after chain_two (verifyClaim pack (tx_of 4) chain_two claim_1)) claim_1) = Verified"
  by (simp_all add: chain_defs)

lemma chain_calls_succeed:
  "isl (verifyClaim pack (tx_of 2) chain_submitted claim_1) = False"
  "isl (verifyClaim pack (tx_of 4) chain_two claim_1) = False"
  "isl (verifyClaim pack (tx_of 2) chain_rich claim_1) = False"
  by (simp_all add: chain_defs)

lemma after_Inr: "isl r = False \<Longrightarrow> r = Inr (after s r)"
  by (cases r) (simp_all add: after_def)

theorem verifier_reward_witness:
  "verifyClaim pack (tx_of 2) chain_submitted claim_1
     = Inr (after chain_submitted (verifyClaim pack (tx_of 2) chain_submitted claim_1))
   \<and> wk_reputationScore (workers_m chain_submitted 2) = 5000
   \<and> wk_reputationScore (workers_m (after chain_submitted (verifyClaim pack (tx_of 2) chain_submitted claim_1)) 2) = 5050
   \<and> wc_status (claims_m (after chain_submitted (verifyClaim pack (tx_of 2) chain_submitted claim_1)) claim_1)
       = PartiallyVerified
   \<and> verifyClaim pack (tx_of 4) chain_two claim_1
     = Inr (after chain_two (verifyClaim pack (tx_of 4) chain_two claim_1))
   \<and> wk_reputationScore (workers_m chain_two 4) = 5000
   \<and> wk_reputationScore (workers_m (after chain_two (verifyClaim pack (tx_of 4) chain_two claim_1)) 4) = 5050
   \<and> wc_status (claims_m (after chain_two (verifyClaim pack (tx_of 4) chain_two claim_1)) claim_1) = Verified"
proof -
  have a: "verifyClaim pack (tx_of 2) chain_submitted claim_1
     = Inr (after chain_submitted (verifyClaim pack (tx_of 2) chain_submitted claim_1))"
    by (rule after_Inr) (rule chain_calls_succeed)
  have b: "verifyClaim pack (tx_of 4) chain_two claim_1
     = Inr (after chain_two (verifyClaim pack (tx_of 4) chain_two claim_1))"
    by (rule after_Inr) (rule chain_calls_succeed)
  from verifier_reward[OF a] verifier_reward[OF b] a b show ?thesis
    using chain_first_verification chain_third_verification by simp
qed

lemma chain_rich_verification:
  "wk_reputationScore (workers_m chain_rich 2) = 10000"
  "wk_reputationScore (workers_m (after chain_rich (verifyClaim pack (tx_of 2) chain_rich claim_1)) 2) = 10050"
  by (simp_all add: chain_defs)

text \<open>
  Claim C6 as stated fails in both programs: in the contract a verifier at reputation
  100.00 goes to 100.50, and in the backend the attestation leaves every reputation,
  the verifier's included, at 50.
\<close>

theorem verifier_reward_counterexample:
  "wk_reputationScore (workers_m chain_rich 2) = 10000
   \<and> wk_reputationScore (workers_m (after chain_rich (verifyClaim pack (tx_of 2) chain_rich claim_1)) 2) = 10050
   \<and> post_verify (env_of ''v1'') db_pending (attest_req ''B'' ''c1'') = (db_one, Verify_unsealed ''v1'' 1)
   \<and> map w_reputation_score (workers db_pending) = [50, 50, 50, 50]
   \<and> map w_reputation_score (workers db_one) = [50, 50, 50, 50]"
  by (simp add: chain_rich_verification step_one_db db_one_workers db_pending_workers
      bump_depth_def)

section \<open>C7: the anomaly score\<close>














section \<open>C8: the summary of the scan\<close>

lemma db_cluster_claims:
  "work_claims db_cluster = [claim_ex ''k1'' ''A'' 8 ''Picking'' 100,
     claim_ex ''k2'' ''B'' 8 ''Picking'' 100, claim_ex ''k3'' ''C'' 8 ''Picking'' 100,
     claim_ex ''k4'' ''D'' 8 ''Picking'' 100]"
  by (simp add: db_cluster_def post_claims_def claims_insert_def insert_claim_def Let_def
      calcAnomalyScore_def recent_claims_def sameHours_cnt_def db_workers_eq claim_ex_def)

lemma db_cluster_rest:
  "verifications db_cluster = []" "anomaly_flags db_cluster = []"
  "workers db_cluster = [worker_ex ''A'', worker_ex ''B'', worker_ex ''C'', worker_ex ''D'']"
  by (simp_all add: db_cluster_def post_claims_def claims_insert_def insert_claim_def Let_def
      calcAnomalyScore_def recent_claims_def sameHours_cnt_def db_workers_eq claim_ex_def)

lemma scan_cluster:
  "post_ai_scan like db_cluster None
     = ([\<lparr>s_type = ''timestamp_cluster'', s_risk = ''medium'', s_score = 0.71,
          s_entity = Minute 100\<rparr>],
        \<lparr>total = 1, high = 0, medium = 1, low = 0\<rparr>)"
  by (simp add: post_ai_scan_def scan_flags_def impossibleHours_def clique_flags_def
      clusters_def dbFlags_def summarise_def minute_of_def db_cluster_claims db_cluster_rest)

lemma count_map: "length (filter P (map f xs)) = length (filter (\<lambda>x. P (f x)) xs)"
  by (induction xs) simp_all

lemma label_high: "((if c then ''high'' else ''medium'') = ''high'') = c"
  by simp

lemma label_medium: "((if c then ''high'' else ''medium'') = ''medium'') = (\<not> c)"
  by simp

lemma high_count:
  "length (filter (\<lambda>f. s_risk f = ''high'') (scan_flags like d region))
     = length (impossibleHours like d region) + length (clique_flags d)
       + length (filter (\<lambda>f. f_risk_score f > 0.7) (dbFlags d))"
  unfolding scan_flags_def clique_flags_def
  by (simp add: count_map label_high o_def)

lemma medium_count:
  "length (filter (\<lambda>f. s_risk f = ''medium'') (scan_flags like d region))
     = length (clusters d) + length (filter (\<lambda>f. \<not> f_risk_score f > 0.7) (dbFlags d))"
  unfolding scan_flags_def clique_flags_def
  by (simp add: count_map label_medium o_def)

lemma flags_length:
  "length (scan_flags like d region)
     = length (impossibleHours like d region) + length (clique_flags d) + length (clusters d)
       + length (dbFlags d)"
  by (simp add: scan_flags_def)

lemma split_count: "length (filter P xs) + length (filter (\<lambda>x. \<not> P x) xs) = length xs"
  by (induction xs) simp_all

lemma flag_labels:
  assumes "f \<in> set (scan_flags like d region)"
  shows "(s_risk f = ''high'') = (s_score f > 0.7 \<and> (\<forall>m. s_entity f \<noteq> Minute m))"
    and "(s_risk f = ''medium'') = (\<not> (s_score f > 0.7 \<and> (\<forall>m. s_entity f \<noteq> Minute m)))"
  using assms by (auto simp: scan_flags_def clique_flags_def label_high label_medium split: if_splits)

text \<open>
  Claim C8, as amended. The summary counts the flags by their risk label, and the counts
  high, medium and low add up to the total, the length of the flag list; low is always 0.
  A flag is labelled high exactly when its score is above 0.7 and it is not a
  timestamp-cluster flag of the scan, and medium otherwise: high counts the
  impossible-hours flags (0.92), the clique flags (0.87) and the stored flags with a score
  above 0.7; medium counts the timestamp-cluster flags (0.71) and the other stored flags.
\<close>

theorem summary_counts_by_label:
  "total (snd (post_ai_scan like d region)) = int (length (fst (post_ai_scan like d region)))
   \<and> total (snd (post_ai_scan like d region))
       = high (snd (post_ai_scan like d region)) + medium (snd (post_ai_scan like d region))
         + low (snd (post_ai_scan like d region))
   \<and> low (snd (post_ai_scan like d region)) = 0
   \<and> high (snd (post_ai_scan like d region))
       = int (length (impossibleHours like d region)) + int (length (clique_flags d))
         + int (length (filter (\<lambda>f. f_risk_score f > 0.7) (dbFlags d)))
   \<and> medium (snd (post_ai_scan like d region))
       = int (length (clusters d)) + int (length (filter (\<lambda>f. \<not> f_risk_score f > 0.7) (dbFlags d)))
   \<and> (\<forall>f\<in>set (fst (post_ai_scan like d region)).
         (s_risk f = ''high'') = (s_score f > 0.7 \<and> (\<forall>m. s_entity f \<noteq> Minute m))
       \<and> (s_risk f = ''medium'') = (\<not> (s_score f > 0.7 \<and> (\<forall>m. s_entity f \<noteq> Minute m))))"
proof -
  let ?fs = "scan_flags like d region"
  have h: "length (filter (\<lambda>f. s_risk f = ''high'') ?fs)
     = length (impossibleHours like d region) + length (clique_flags d)
       + length (filter (\<lambda>f. f_risk_score f > 0.7) (dbFlags d))" by (rule high_count)
  have m: "length (filter (\<lambda>f. s_risk f = ''medium'') ?fs)
     = length (clusters d) + length (filter (\<lambda>f. \<not> f_risk_score f > 0.7) (dbFlags d))"
    by (rule medium_count)
  have t: "length ?fs = length (filter (\<lambda>f. s_risk f = ''high'') ?fs)
      + length (filter (\<lambda>f. s_risk f = ''medium'') ?fs)"
    using split_count[of "\<lambda>f. f_risk_score f > 0.7" "dbFlags d"]
    by (simp add: h m flags_length)
  have lab: "\<forall>f\<in>set ?fs.
         (s_risk f = ''high'') = (s_score f > 0.7 \<and> (\<forall>m. s_entity f \<noteq> Minute m))
       \<and> (s_risk f = ''medium'') = (\<not> (s_score f > 0.7 \<and> (\<forall>m. s_entity f \<noteq> Minute m)))"
    using flag_labels[of _ like d region] by blast
  show ?thesis
    using lab t by (simp add: post_ai_scan_def summarise_def Let_def h m)
qed

theorem summary_counts_by_label_witness:
  "fst (post_ai_scan like_any db_cluster None)
     = [\<lparr>s_type = ''timestamp_cluster'', s_risk = ''medium'', s_score = 0.71, s_entity = Minute 100\<rparr>]
   \<and> total (snd (post_ai_scan like_any db_cluster None)) = 1
   \<and> high (snd (post_ai_scan like_any db_cluster None)) = 0
   \<and> medium (snd (post_ai_scan like_any db_cluster None)) = 1
   \<and> low (snd (post_ai_scan like_any db_cluster None)) = 0
   \<and> clusters db_cluster = [100] \<and> dbFlags db_cluster = []"
  using summary_counts_by_label[of like_any db_cluster None]
  by (simp add: scan_cluster clusters_def dbFlags_def minute_of_def db_cluster_claims db_cluster_rest)

text \<open>
  Claim C8 as stated fails for four claims created in one minute: the scan returns one
  timestamp-cluster flag, whose score 0.71 is above 0.7, and the summary counts it as
  medium, with high 0.
\<close>

theorem summary_counts_by_label_counterexample:
  "post_ai_scan like_any db_cluster None
     = ([\<lparr>s_type = ''timestamp_cluster'', s_risk = ''medium'', s_score = 0.71,
          s_entity = Minute 100\<rparr>],
        \<lparr>total = 1, high = 0, medium = 1, low = 0\<rparr>)
   \<and> (0.71 :: real) > 0.7"
  by (simp add: scan_cluster)

section \<open>C9: a failed operation changes nothing\<close>






section \<open>C10: a sealed claim is frozen\<close>

text \<open>
  Whatever the hash, a submit that succeeds leaves the claim stored under its id with the
  status \<open>Pending\<close> and with the verifiers that were stored there before.
\<close>

lemma submitClaim_keeps_verifiers:
  assumes "submitClaim k tx s date hoursX10 taskHash = Inr s'"
  shows "wc_status (claims_m s' (k [msg_sender tx, date, block_timestamp tx])) = Pending
       \<and> wc_verifiers (claims_m s' (k [msg_sender tx, date, block_timestamp tx]))
           = wc_verifiers (claims_m s (k [msg_sender tx, date, block_timestamp tx]))
       \<and> hasVerified s' = hasVerified s"
  using assms by (auto simp: submitClaim_def Let_def split: if_splits)

text \<open>
  Claim C10 fails in the contract. \<open>submitClaim\<close> derives the claim id from the caller,
  the date and the block timestamp, and writes the claim's fields without looking whether
  the id is taken. A second submit of the owner for the same date in the same block packs
  the same three values, so under any hash it has the same id: it sets the sealed claim
  back to \<open>Pending\<close> and keeps its three verifiers; a fourth account can then verify, and
  the claim is sealed again, with four verifiers, and the owner's verified days counted
  twice. (In the backend the claim holds: \<open>backend_sealed_frozen\<close>.)
\<close>

theorem resubmission_reopens_sealed_claim:
  "wc_status (claims_m chain_sealed claim_1) = Verified
   \<and> wc_verifiers (claims_m chain_sealed claim_1) = [2, 3, 4]
   \<and> isl (submitClaim pack (tx_of 1) chain_sealed 2 80 ''QmTask'') = False
   \<and> wc_status (claims_m chain_resubmitted claim_1) = Pending
   \<and> wc_verifiers (claims_m chain_resubmitted claim_1) = [2, 3, 4]
   \<and> isl (verifyClaim pack (tx_of 5) chain_resubmitted claim_1) = False
   \<and> wc_status (claims_m chain_resealed claim_1) = Verified
   \<and> wc_verifiers (claims_m chain_resealed claim_1) = [2, 3, 4, 5]
   \<and> wk_verifiedDays (workers_m chain_resealed 1) = 2
   \<and> totalVerifiedClaims chain_resealed = 2"
  by (simp add: chain_defs)

end
